theory Spec2Isabelle
  imports
    Main
    "HOL-Library.Sublist"
    "HOL-Library.Char_ord"
    "HOL-Library.List_Lexorder"
begin

section \<open>Python strings\<close>

text \<open>
  A Python \<open>str\<close> is modelled as a \<^typ>\<open>string\<close>: the list of its code points, for
  code points below 256 (one \<^typ>\<open>char\<close> each, the Latin-1 range). \<open>len\<close> is
  \<^const>\<open>length\<close>, \<open>s[a:b]\<close> is \<open>take (b - a) (drop a s)\<close>, \<open>p in s\<close> is
  \<open>str_in p s\<close>. A raised exception is the \<open>Inl\<close> of a sum.
\<close>

datatype py_error = ValueError | KeyError | IndexError | URLError | UnicodeDecodeError

text \<open>A Python \<open>bytes\<close> object: one \<^typ>\<open>char\<close> for each byte.\<close>

type_synonym bytes = "char list"

text \<open>\<open>str.isspace\<close> on one code point below 256.\<close>

definition isspace :: "char \<Rightarrow> bool" where
  "isspace c \<longleftrightarrow>
     (let n = (of_char c :: nat) in (9 \<le> n \<and> n \<le> 13) \<or> (28 \<le> n \<and> n \<le> 32) \<or> n = 133 \<or> n = 160)"

text \<open>\<open>s.lstrip()\<close>, \<open>s.rstrip()\<close>, \<open>s.strip()\<close> with no argument: whitespace goes.\<close>

definition str_lstrip :: "string \<Rightarrow> string" where
  "str_lstrip s = dropWhile isspace s"

definition str_rstrip :: "string \<Rightarrow> string" where
  "str_rstrip s = rev (dropWhile isspace (rev s))"

definition str_strip :: "string \<Rightarrow> string" where
  "str_strip s = str_rstrip (str_lstrip s)"

text \<open>
  \<open>s.lower()\<close>: below 256 the code points that \<open>lower\<close> changes are A-Z and
  0xC0-0xDE without 0xD7, each 32 below its lower-case form.
\<close>

definition cased_upper :: string where
  "cased_upper = ''ABCDEFGHIJKLMNOPQRSTUVWXYZ'' @
     [CHR 0xC0, CHR 0xC1, CHR 0xC2, CHR 0xC3, CHR 0xC4, CHR 0xC5, CHR 0xC6, CHR 0xC7,
      CHR 0xC8, CHR 0xC9, CHR 0xCA, CHR 0xCB, CHR 0xCC, CHR 0xCD, CHR 0xCE, CHR 0xCF,
      CHR 0xD0, CHR 0xD1, CHR 0xD2, CHR 0xD3, CHR 0xD4, CHR 0xD5, CHR 0xD6, CHR 0xD8,
      CHR 0xD9, CHR 0xDA, CHR 0xDB, CHR 0xDC, CHR 0xDD, CHR 0xDE]"

definition cased_lower :: string where
  "cased_lower = ''abcdefghijklmnopqrstuvwxyz'' @
     [CHR 0xE0, CHR 0xE1, CHR 0xE2, CHR 0xE3, CHR 0xE4, CHR 0xE5, CHR 0xE6, CHR 0xE7,
      CHR 0xE8, CHR 0xE9, CHR 0xEA, CHR 0xEB, CHR 0xEC, CHR 0xED, CHR 0xEE, CHR 0xEF,
      CHR 0xF0, CHR 0xF1, CHR 0xF2, CHR 0xF3, CHR 0xF4, CHR 0xF5, CHR 0xF6, CHR 0xF8,
      CHR 0xF9, CHR 0xFA, CHR 0xFB, CHR 0xFC, CHR 0xFD, CHR 0xFE]"

definition lower_char :: "char \<Rightarrow> char" where
  "lower_char c = (case map_of (zip cased_upper cased_lower) c of None \<Rightarrow> c | Some d \<Rightarrow> d)"

definition str_lower :: "string \<Rightarrow> string" where
  "str_lower s = map lower_char s"

text \<open>\<open>s.startswith(p)\<close>, \<open>s.endswith(p)\<close> and the substring test \<open>p in s\<close>.\<close>

definition startswith :: "string \<Rightarrow> string \<Rightarrow> bool" where
  "startswith s p = prefix p s"

definition endswith :: "string \<Rightarrow> string \<Rightarrow> bool" where
  "endswith s p = suffix p s"

fun str_in :: "string \<Rightarrow> string \<Rightarrow> bool" where
  "str_in p [] = (p = [])"
| "str_in p (c # s) = (prefix p (c # s) \<or> str_in p s)"

text \<open>
  \<open>s.find(c, start)\<close> and \<open>s.rfind(c)\<close> for one character \<open>c\<close>: Python's \<open>-1\<close> is
  \<open>None\<close>.
\<close>

definition str_find :: "string \<Rightarrow> char \<Rightarrow> nat \<Rightarrow> nat option" where
  "str_find s c start =
     (if c \<in> set (drop start s)
      then Some (start + length (takeWhile (\<lambda>x. x \<noteq> c) (drop start s)))
      else None)"

definition str_rfind :: "string \<Rightarrow> char \<Rightarrow> nat option" where
  "str_rfind s c =
     (if c \<in> set s
      then Some (length s - 1 - length (takeWhile (\<lambda>x. x \<noteq> c) (rev s)))
      else None)"

text \<open>
  \<open>s.split(c, 1)\<close> for one character \<open>c\<close>, where the source has checked or indexes the
  second part: the pair of the text before and after the first \<open>c\<close>.
\<close>

definition split1 :: "string \<Rightarrow> char \<Rightarrow> string \<times> string" where
  "split1 s c = (takeWhile (\<lambda>x. x \<noteq> c) s, drop 1 (dropWhile (\<lambda>x. x \<noteq> c) s))"

text \<open>
  \<open>s.replace(old, new, 1)\<close>: the first occurrence of \<open>old\<close> is replaced; an empty
  \<open>old\<close> matches at the start.
\<close>

fun replace1 :: "string \<Rightarrow> string \<Rightarrow> string \<Rightarrow> string" where
  "replace1 [] old new = (if old = [] then new else [])"
| "replace1 (c # s) old new =
     (if prefix old (c # s) then new @ drop (length old) (c # s)
      else c # replace1 s old new)"

section \<open>The standard library's \<open>urllib.parse\<close> and \<open>html\<close>\<close>

text \<open>
  The functions of CPython 3.11's \<open>urllib.parse\<close> that \<open>scanner.py\<close> calls, line by
  line. What the program gets from other modules, which are not part of it, is a field
  of the record \<open>library\<close>, so every theorem holds whatever those do:
  \<^item> \<open>check_bracketed_host\<close>: whether \<open>_check_bracketed_host\<close> accepts the text
    between \<open>[\<close> and \<open>]\<close> of a netloc (it calls \<open>ipaddress\<close> and \<open>re\<close>);
  \<^item> \<open>checknetloc_nfkc\<close>: whether \<open>_checknetloc\<close> accepts a non-ASCII netloc (it
    calls \<open>unicodedata.normalize\<close>);
  \<^item> \<open>html_charref_sub\<close>: \<open>_charref.sub(_replace_charref, s)\<close> of \<open>html.unescape\<close>,
    the HTML5 table of character references;
  \<^item> \<open>unquote_plus\<close>: \<open>urllib.parse.unquote_plus\<close> with \<open>errors='replace'\<close>, which
    never raises;
  \<^item> \<open>ET_fromstring\<close>: \<open>xml.etree.ElementTree.fromstring\<close>, \<open>None\<close> for its
    \<open>ParseError\<close>;
  \<^item> \<open>gzip_decompress\<close>: \<open>gzip.decompress\<close>;
  \<^item> \<open>decode_utf8_ignore\<close>: \<open>raw.decode("utf-8", errors="ignore")\<close>, which never
    raises;
  \<^item> \<open>soup_a_href\<close>: the \<open>href\<close> values of \<open>soup.find_all("a", href=True)\<close> for
    \<open>BeautifulSoup(html_text, "html.parser")\<close>, in document order;
  \<^item> \<open>list_of_set\<close>: the order in which Python iterates over a set of strings
    (\<open>list(s)\<close>, \<open>for x in s\<close>), which the language leaves open;
  \<^item> \<open>decode_utf8_strict\<close>: \<open>raw.decode("utf-8")\<close>, \<open>None\<close> for its
    \<open>UnicodeDecodeError\<close>;
  \<^item> \<open>rules_parse_error\<close>: the exception, if any, that \<open>RobotFileParser.parse(lines)\<close>
    raises while it reads the rules (from \<open>int\<close> or \<open>urlparse\<close>), after it has set
    \<open>last_checked\<close>;
  \<^item> \<open>rules_can_fetch\<close>: what \<open>RobotFileParser.can_fetch(useragent, url)\<close> answers
    from the rules of the lines it has parsed, once its three flags are passed
    (\<open>Inl\<close> when that raises).
\<close>

text \<open>
  An \<open>xml.etree.ElementTree.Element\<close>: its \<open>tag\<close>, its \<open>text\<close> (\<open>None\<close> when it
  has none) and its children.
\<close>

datatype Element = Element (tag: string) (text_of: "string option") (children: "Element list")

text \<open>
  What \<open>gzip.decompress\<close> does: it returns the bytes, raises an \<open>OSError\<close>
  (\<open>BadGzipFile\<close>), or raises something else (\<open>EOFError\<close>, \<open>zlib.error\<close>).
\<close>

datatype gzip_result = Decompressed bytes | GzipOSError | GzipOtherError

record library =
  check_bracketed_host :: "string \<Rightarrow> bool"
  checknetloc_nfkc :: "string \<Rightarrow> bool"
  html_charref_sub :: "string \<Rightarrow> string"
  unquote_plus :: "string \<Rightarrow> string"
  ET_fromstring :: "string \<Rightarrow> Element option"
  gzip_decompress :: "bytes \<Rightarrow> gzip_result"
  decode_utf8_ignore :: "bytes \<Rightarrow> string"
  soup_a_href :: "string \<Rightarrow> string list"
  list_of_set :: "string set \<Rightarrow> string list"
  decode_utf8_strict :: "bytes \<Rightarrow> string option"
  rules_parse_error :: "string list \<Rightarrow> py_error option"
  rules_can_fetch :: "string list \<Rightarrow> string \<Rightarrow> string \<Rightarrow> py_error + bool"

definition uses_netloc :: "string list" where
  "uses_netloc = ['''', ''ftp'', ''http'', ''gopher'', ''nntp'', ''telnet'',
     ''imap'', ''wais'', ''file'', ''mms'', ''https'', ''shttp'',
     ''snews'', ''prospero'', ''rtsp'', ''rtsps'', ''rtspu'', ''rsync'',
     ''svn'', ''svn+ssh'', ''sftp'', ''nfs'', ''git'', ''git+ssh'',
     ''ws'', ''wss'']"

definition uses_params :: "string list" where
  "uses_params = ['''', ''ftp'', ''hdl'', ''prospero'', ''http'', ''imap'',
     ''https'', ''shttp'', ''rtsp'', ''rtsps'', ''rtspu'', ''sip'',
     ''sips'', ''mms'', ''sftp'', ''tel'']"

definition scheme_chars :: "string" where
  "scheme_chars = ''abcdefghijklmnopqrstuvwxyzABCDEFGHIJKLMNOPQRSTUVWXYZ0123456789+-.''"

definition c0_control_or_space :: "char \<Rightarrow> bool" where
  "c0_control_or_space c \<longleftrightarrow> (of_char c :: nat) \<le> 32"

definition isascii :: "char \<Rightarrow> bool" where
  "isascii c \<longleftrightarrow> (of_char c :: nat) < 128"

definition ascii_isalpha :: "char \<Rightarrow> bool" where
  "ascii_isalpha c \<longleftrightarrow>
     (let n = (of_char c :: nat) in (65 \<le> n \<and> n \<le> 90) \<or> (97 \<le> n \<and> n \<le> 122))"

text \<open>
  \<^verbatim>\<open>
  def _splitnetloc(url, start=0):
      delim = len(url)
      for c in '/?#':
          wdelim = url.find(c, start)
          if wdelim >= 0:
              delim = min(delim, wdelim)
      return url[start:delim], url[delim:]
  \<close>
\<close>

definition splitnetloc :: "string \<Rightarrow> nat \<Rightarrow> string \<times> string" where
  "splitnetloc url start =
     (let delim = fold (\<lambda>c d. case str_find url c start of Some w \<Rightarrow> min d w | None \<Rightarrow> d)
                    ''/?#'' (length url)
      in (take (delim - start) (drop start url), drop delim url))"

text \<open>
  \<^verbatim>\<open>
  def _splitparams(url):
      if '/'  in url:
          i = url.find(';', url.rfind('/'))
          if i < 0:
              return url, ''
      else:
          i = url.find(';')
      return url[:i], url[i+1:]
  \<close>
  Its one caller has checked \<open>';' in url\<close>.
\<close>

definition splitparams :: "string \<Rightarrow> string \<times> string" where
  "splitparams url =
     (case (if CHR ''/'' \<in> set url then str_find url (CHR '';'') (the (str_rfind url (CHR ''/'')))
            else str_find url (CHR '';'') 0) of
        None \<Rightarrow> (url, [])
      | Some i \<Rightarrow> (take i url, drop (i + 1) url))"

text \<open>
  \<open>urlsplit(url, scheme)\<close> with the default \<open>allow_fragments=True\<close>; each
  \<open>raise ValueError\<close> of the source is an \<open>Inl ValueError\<close>:
  \<^verbatim>\<open>
      url = url.lstrip(_WHATWG_C0_CONTROL_OR_SPACE)
      scheme = scheme.strip(_WHATWG_C0_CONTROL_OR_SPACE)
      for b in _UNSAFE_URL_BYTES_TO_REMOVE:        # '\t', '\r', '\n'
          url = url.replace(b, "")
          scheme = scheme.replace(b, "")
      netloc = query = fragment = ''
      i = url.find(':')
      if i > 0 and url[0].isascii() and url[0].isalpha():
          for c in url[:i]:
              if c not in scheme_chars:
                  break
          else:
              scheme, url = url[:i].lower(), url[i+1:]
      if url[:2] == '//':
          netloc, url = _splitnetloc(url, 2)
          if (('[' in netloc and ']' not in netloc) or
                  (']' in netloc and '[' not in netloc)):
              raise ValueError("Invalid IPv6 URL")
          if '[' in netloc and ']' in netloc:
              bracketed_host = netloc.partition('[')[2].partition(']')[0]
              _check_bracketed_host(bracketed_host)
      if allow_fragments and '#' in url:
          url, fragment = url.split('#', 1)
      if '?' in url:
          url, query = url.split('?', 1)
      _checknetloc(netloc)
      v = SplitResult(scheme, netloc, url, query, fragment)
  \<close>
\<close>

definition urlsplit ::
  "library \<Rightarrow> string \<Rightarrow> string \<Rightarrow>
     py_error + (string \<times> string \<times> string \<times> string \<times> string)" where
  "urlsplit env url0 scheme0 =
     (let url1 = dropWhile c0_control_or_space url0;
          scheme1 = rev (dropWhile c0_control_or_space (rev (dropWhile c0_control_or_space scheme0)));
          url2 = filter (\<lambda>c. c \<noteq> CHR 0x09 \<and> c \<noteq> CHR 0x0D \<and> c \<noteq> CHR 0x0A) url1;
          scheme2 = filter (\<lambda>c. c \<noteq> CHR 0x09 \<and> c \<noteq> CHR 0x0D \<and> c \<noteq> CHR 0x0A) scheme1;
          (sch, url3) =
            (case str_find url2 (CHR '':'') 0 of
               None \<Rightarrow> (scheme2, url2)
             | Some i \<Rightarrow>
                 if 0 < i \<and> isascii (hd url2) \<and> ascii_isalpha (hd url2)
                    \<and> list_all (\<lambda>c. c \<in> set scheme_chars) (take i url2)
                 then (str_lower (take i url2), drop (i + 1) url2)
                 else (scheme2, url2));
          has_netloc = (take 2 url3 = ''//'');
          (nl, url4) = (if has_netloc then splitnetloc url3 2 else ([], url3));
          lb = (CHR ''['' \<in> set nl);
          rb = (CHR '']'' \<in> set nl)
      in if has_netloc \<and> ((lb \<and> \<not> rb) \<or> (rb \<and> \<not> lb)) then Inl ValueError
         else if has_netloc \<and> lb \<and> rb
                 \<and> \<not> check_bracketed_host env (fst (split1 (snd (split1 nl (CHR ''[''))) (CHR '']'')))
         then Inl ValueError
         else
           let (url5, frag) = (if CHR ''#'' \<in> set url4 then split1 url4 (CHR ''#'') else (url4, []));
               (url6, qry) = (if CHR ''?'' \<in> set url5 then split1 url5 (CHR ''?'') else (url5, []))
           in if nl \<noteq> [] \<and> \<not> list_all isascii nl \<and> \<not> checknetloc_nfkc env nl
              then Inl ValueError
              else Inr (sch, nl, url6, qry, frag))"

record ParseResult =
  scheme :: string
  netloc :: string
  path :: string
  params :: string
  query :: string
  fragment :: string

text \<open>
  \<^verbatim>\<open>
      splitresult = urlsplit(url, scheme, allow_fragments)
      scheme, netloc, url, query, fragment = splitresult
      if scheme in uses_params and ';' in url:
          url, params = _splitparams(url)
      else:
          params = ''
      result = ParseResult(scheme, netloc, url, params, query, fragment)
  \<close>
\<close>

definition urlparse :: "library \<Rightarrow> string \<Rightarrow> string \<Rightarrow> py_error + ParseResult" where
  "urlparse env url scheme0 =
     (case urlsplit env url scheme0 of
        Inl e \<Rightarrow> Inl e
      | Inr (sch, nl, u, qry, frag) \<Rightarrow>
          let (u', ps) = (if sch \<in> set uses_params \<and> CHR '';'' \<in> set u
                          then splitparams u else (u, []))
          in Inr \<lparr>scheme = sch, netloc = nl, path = u', params = ps, query = qry,
                  fragment = frag\<rparr>)"

text \<open>
  \<^verbatim>\<open>
  def urlunsplit(components):
      scheme, netloc, url, query, fragment, _coerce_result = (_coerce_args(*components))
      if netloc or (scheme and scheme in uses_netloc) or url[:2] == '//':
          if url and url[:1] != '/': url = '/' + url
          url = '//' + (netloc or '') + url
      if scheme:
          url = scheme + ':' + url
      if query:
          url = url + '?' + query
      if fragment:
          url = url + '#' + fragment
  \<close>
\<close>

definition urlunsplit :: "string \<Rightarrow> string \<Rightarrow> string \<Rightarrow> string \<Rightarrow> string \<Rightarrow> string" where
  "urlunsplit sch nl url qry frag =
     (let url1 = (if nl \<noteq> [] \<or> (sch \<noteq> [] \<and> sch \<in> set uses_netloc) \<or> take 2 url = ''//''
                  then ''//'' @ nl @ (if url \<noteq> [] \<and> take 1 url \<noteq> ''/'' then ''/'' @ url else url)
                  else url);
          url2 = (if sch \<noteq> [] then sch @ '':'' @ url1 else url1);
          url3 = (if qry \<noteq> [] then url2 @ ''?'' @ qry else url2)
      in if frag \<noteq> [] then url3 @ ''#'' @ frag else url3)"

text \<open>
  \<^verbatim>\<open>
  def urlunparse(components):
      scheme, netloc, url, params, query, fragment, _coerce_result = (...)
      if params:
          url = "%s;%s" % (url, params)
      return _coerce_result(urlunsplit((scheme, netloc, url, query, fragment)))
  \<close>
\<close>

definition urlunparse ::
  "string \<Rightarrow> string \<Rightarrow> string \<Rightarrow> string \<Rightarrow> string \<Rightarrow> string \<Rightarrow> string" where
  "urlunparse sch nl url ps qry frag =
     urlunsplit sch nl (if ps \<noteq> [] then url @ '';'' @ ps else url) qry frag"

text \<open>
  \<^verbatim>\<open>
  def urldefrag(url):
      if '#' in url:
          s, n, p, a, q, frag = urlparse(url)
          defrag = urlunparse((s, n, p, a, q, ''))
      else:
          frag = ''
          defrag = url
      return _coerce_result(DefragResult(defrag, frag))
  \<close>
\<close>

definition urldefrag :: "library \<Rightarrow> string \<Rightarrow> py_error + (string \<times> string)" where
  "urldefrag env url =
     (if CHR ''#'' \<in> set url then
        (case urlparse env url [] of
           Inl e \<Rightarrow> Inl e
         | Inr r \<Rightarrow> Inr (urlunparse (scheme r) (netloc r) (path r) (params r) (query r) [],
                          fragment r))
      else Inr (url, []))"

text \<open>
  \<open>quote(string, safe)\<close>: the string is encoded in UTF-8 (one byte below 128, two
  bytes from 128 to 255), and every byte that is neither always safe nor in \<open>safe\<close>
  becomes \<open>'%{:02X}'.format(b)\<close>.
\<close>

definition always_safe :: "string" where
  "always_safe = ''ABCDEFGHIJKLMNOPQRSTUVWXYZabcdefghijklmnopqrstuvwxyz0123456789_.-~''"

definition utf8_encode :: "string \<Rightarrow> bytes" where
  "utf8_encode s =
     concat (map (\<lambda>c. let n = (of_char c :: nat) in
                       if n < 128 then [c] else [char_of (192 + n div 64), char_of (128 + n mod 64)]) s)"

definition hex_digit :: "nat \<Rightarrow> char" where
  "hex_digit n = ''0123456789ABCDEF'' ! (n mod 16)"

definition quote :: "string \<Rightarrow> string \<Rightarrow> string" where
  "quote s safe =
     concat (map (\<lambda>b. if isascii b \<and> b \<in> set always_safe \<union> set safe then [b]
                       else [CHR ''%'', hex_digit ((of_char b :: nat) div 16), hex_digit (of_char b)])
                 (utf8_encode s))"

text \<open>
  \<^verbatim>\<open>
  def unescape(s):
      if '&' not in s:
          return s
      return _charref.sub(_replace_charref, s)
  \<close>
\<close>

definition html_unescape :: "library \<Rightarrow> string \<Rightarrow> string" where
  "html_unescape env s = (if CHR ''&'' \<notin> set s then s else html_charref_sub env s)"

section \<open>The variant normalizer\<close>

text \<open>
  \<open>normalize_variants\<close> of \<open>scanner.py\<close>. \<open>urldefrag\<close> stands outside the
  \<open>with suppress(Exception)\<close> block, so its \<open>ValueError\<close> leaves the function; the
  block's only call that can raise is \<open>urlparse\<close>, before anything is added.
\<close>

definition quote_safe :: "string" where
  "quote_safe = '':/?#[]@!$&'' @ [CHR 0x27] @ ''()*+,;=%''"

definition normalize_variants :: "library \<Rightarrow> string \<Rightarrow> py_error + string set" where
  "normalize_variants env target =
     (let s = str_strip target in
      if s = [] then Inr {}
      else
        let s_unesc = html_unescape env s in
        case urldefrag env s_unesc of
          Inl e \<Rightarrow> Inl e
        | Inr (s_defrag, _) \<Rightarrow>
            let variants = {s, s_unesc, s_defrag};
                variants =
                  (case urlparse env s_defrag [] of
                     Inl _ \<Rightarrow> variants
                   | Inr p \<Rightarrow>
                       if netloc p \<noteq> [] then
                         let variants =
                               (if scheme p \<noteq> []
                                then insert (replace1 s_defrag (scheme p @ ''://'') []) variants
                                else variants)
                         in if startswith (netloc p) ''www.'' then
                              let no_www = replace1 s_defrag (netloc p) (drop 4 (netloc p));
                                  variants = insert no_www variants
                              in if scheme p \<noteq> []
                                 then insert (replace1 no_www (scheme p @ ''://'') []) variants
                                 else variants
                            else variants
                       else variants);
                enc = (\<lambda>v. quote v quote_safe) ` variants
            in Inr (Set.filter (\<lambda>v. 6 \<le> length v) (variants \<union> enc)))"

text \<open>
  One library, for running the definitions on examples: no bracketed host is valid, no
  non-ASCII netloc is refused, character references and percent escapes are left as they
  are, no text is XML, no bytes are a gzip file, every byte is decoded as the code point
  of its value, no page has a link, a set is listed in ascending order, and the rules of
  every robots.txt allow every URL.
\<close>

definition library0 :: library where
  "library0 =
     \<lparr>check_bracketed_host = (\<lambda>_. False),
      checknetloc_nfkc = (\<lambda>_. True),
      html_charref_sub = (\<lambda>s. s),
      unquote_plus = (\<lambda>s. s),
      ET_fromstring = (\<lambda>_. None),
      gzip_decompress = (\<lambda>_. GzipOSError),
      decode_utf8_ignore = (\<lambda>raw. raw),
      soup_a_href = (\<lambda>_. []),
      list_of_set = sorted_list_of_set,
      decode_utf8_strict = (\<lambda>raw. Some raw),
      rules_parse_error = (\<lambda>_. None),
      rules_can_fetch = (\<lambda>_ _ _. Inr True)\<rparr>"

section \<open>The pattern matcher\<close>

text \<open>
  Modelled from the spec: the accelerated multi-pattern structure is the package
  \<open>ahocorasick\<close>, which is not part of \<open>scanner.py\<close>; the spec has it as the capability
  "given a set of patterns, find which occur in a text". Of its \<open>Automaton\<close> the
  program uses \<open>add_word(key, value)\<close>, \<open>make_automaton()\<close>, \<open>len\<close> (through the truth
  value of \<open>self.aho\<close>) and \<open>iter(text)\<close>. The model is the store of keys with their
  values, in the order they were added: \<open>add_word\<close> stores a non-empty key (a key
  added again gets the new value) and leaves the store as it is for the empty key,
  \<open>make_automaton\<close> changes nothing one can observe here, \<open>len\<close> is the number of
  keys, and \<open>iter(text)\<close> yields \<open>(end_index, value)\<close> for every occurrence of every
  key in \<open>text\<close>, by the index of the occurrence's last character.
\<close>

type_synonym Automaton = "(string \<times> (nat \<times> string)) list"

definition add_word :: "Automaton \<Rightarrow> string \<Rightarrow> nat \<times> string \<Rightarrow> Automaton" where
  "add_word A key v = (if key = [] then A else filter (\<lambda>kv. fst kv \<noteq> key) A @ [(key, v)])"

definition automaton_len :: "Automaton \<Rightarrow> nat" where
  "automaton_len A = length A"

definition automaton_iter :: "Automaton \<Rightarrow> string \<Rightarrow> (nat \<times> (nat \<times> string)) list" where
  "automaton_iter A txt =
     concat (map (\<lambda>i. map (\<lambda>kv. (i, snd kv)) (filter (\<lambda>kv. suffix (fst kv) (take (Suc i) txt)) A))
                 [0..<length txt])"

text \<open>
  The class \<open>Matcher\<close>. \<open>list(patterns)\<close> lists a set in an order of Python's choosing:
  the constructor of the model takes that list. \<open>have_aho\<close> is
  \<open>'ahocorasick' in globals()\<close>, true when the import at the top of the module
  succeeded.
\<close>

record Matcher =
  patterns_list :: "string list"
  use_aho :: bool
  aho :: "Automaton option"

definition Matcher_init :: "bool \<Rightarrow> string list \<Rightarrow> Matcher" where
  "Matcher_init have_aho patterns =
     (if have_aho then
        \<lparr>patterns_list = patterns, use_aho = True,
         aho = Some (fold (\<lambda>(idx, pat) automaton. add_word automaton pat (idx, pat))
                          (enumerate 0 patterns) [])\<rparr>
      else \<lparr>patterns_list = patterns, use_aho = False, aho = None\<rparr>)"

text \<open>
  \<open>Matcher.find_in\<close>. \<open>self.use_aho and self.aho\<close> is true when the automaton is
  there and its \<open>len\<close> is not 0; \<open>self.patterns_list[idx]\<close> raises \<open>IndexError\<close> out
  of range.
\<close>

definition find_in :: "Matcher \<Rightarrow> string \<Rightarrow> py_error + string set" where
  "find_in self txt =
     (if txt = [] then Inr {}
      else if use_aho self \<and> (case aho self of None \<Rightarrow> False | Some A \<Rightarrow> automaton_len A \<noteq> 0)
      then
        (let hits = automaton_iter (the (aho self)) txt in
         if list_all (\<lambda>hit. fst (snd hit) < length (patterns_list self)) hits
         then Inr ((\<lambda>hit. patterns_list self ! fst (snd hit)) ` set hits)
         else Inl IndexError)
      else Inr (Set.filter (\<lambda>p. str_in p txt) (set (patterns_list self))))"

section \<open>Configuration\<close>

text \<open>
  The module's constants. \<open>main\<close> overwrites \<open>MAX_PAGES\<close> and \<open>SCAN_HTML_BODY_TOO\<close>
  (and \<open>DOMAINS\<close>, which every function here takes as an argument) from the command
  line, where \<open>--max-pages\<close> is any \<open>int\<close>: these two are the fields of \<open>config\<close>. The
  others are never assigned again.
\<close>

definition SCHEMES :: "string list" where
  "SCHEMES = [''https'']"

definition MAX_MATCH_PAGES_PER_QUERY :: nat where
  "MAX_MATCH_PAGES_PER_QUERY = 100"

definition SITEMAP_CAP :: nat where
  "SITEMAP_CAP = 5000"

definition USER_AGENT :: string where
  "USER_AGENT = ''URL-Scanner/1.0 (+contact: your@email.com)''"

definition BINARY_EXTS :: "string list" where
  "BINARY_EXTS =
     [''.jpg'', ''.jpeg'', ''.png'', ''.gif'', ''.webp'', ''.svg'', ''.pdf'', ''.zip'', ''.rar'',
      ''.7z'', ''.mp4'', ''.mp3'', ''.mov'', ''.avi'', ''.mkv'', ''.woff'', ''.woff2'', ''.ttf'',
      ''.eot'', ''.otf'', ''.ico'']"

record config =
  MAX_PAGES :: int
  SCAN_HTML_BODY_TOO :: bool

definition default_config :: config where
  "default_config = \<lparr>MAX_PAGES = 20000, SCAN_HTML_BODY_TOO = True\<rparr>"

text \<open>A configuration for examples, as \<^verbatim>\<open>--max-pages 1\<close> sets it.\<close>

definition one_page_config :: config where
  "one_page_config = \<lparr>MAX_PAGES = 1, SCAN_HTML_BODY_TOO = True\<rparr>"

section \<open>\<open>urljoin\<close> and \<open>splitlines\<close>\<close>

text \<open>\<open>s.split(c)\<close> for one character \<open>c\<close>, and \<open>sep.join(parts)\<close>.\<close>

definition str_split :: "string \<Rightarrow> char \<Rightarrow> string list" where
  "str_split s c = foldr (\<lambda>x acc. if x = c then [] # acc else (x # hd acc) # tl acc) s [[]]"

definition str_join :: "string \<Rightarrow> string list \<Rightarrow> string" where
  "str_join sep parts =
     (case parts of [] \<Rightarrow> [] | p # ps \<Rightarrow> p @ concat (map (\<lambda>q. sep @ q) ps))"

definition uses_relative :: "string list" where
  "uses_relative = ['''', ''ftp'', ''http'', ''gopher'', ''nntp'', ''imap'',
     ''wais'', ''file'', ''https'', ''shttp'', ''mms'',
     ''prospero'', ''rtsp'', ''rtsps'', ''rtspu'', ''sftp'',
     ''svn'', ''svn+ssh'', ''ws'', ''wss'']"

text \<open>
  \<open>urljoin(base, url)\<close> of CPython 3.11:
  \<^verbatim>\<open>
      if not base:
          return url
      if not url:
          return base
      bscheme, bnetloc, bpath, bparams, bquery, bfragment = urlparse(base, '', allow_fragments)
      scheme, netloc, path, params, query, fragment = urlparse(url, bscheme, allow_fragments)
      if scheme != bscheme or scheme not in uses_relative:
          return _coerce_result(url)
      if scheme in uses_netloc:
          if netloc:
              return _coerce_result(urlunparse((scheme, netloc, path, params, query, fragment)))
          netloc = bnetloc
      if not path and not params:
          path = bpath
          params = bparams
          if not query:
              query = bquery
          return _coerce_result(urlunparse((scheme, netloc, path, params, query, fragment)))
      base_parts = bpath.split('/')
      if base_parts[-1] != '':
          del base_parts[-1]
      if path[:1] == '/':
          segments = path.split('/')
      else:
          segments = base_parts + path.split('/')
          segments[1:-1] = filter(None, segments[1:-1])
      resolved_path = []
      for seg in segments:
          if seg == '..':
              try:
                  resolved_path.pop()
              except IndexError:
                  pass
          elif seg == '.':
              continue
          else:
              resolved_path.append(seg)
      if segments[-1] in ('.', '..'):
          resolved_path.append('')
      return _coerce_result(urlunparse((scheme, netloc, '/'.join(
          resolved_path) or '/', params, query, fragment)))
  \<close>
\<close>

definition urljoin :: "library \<Rightarrow> string \<Rightarrow> string \<Rightarrow> py_error + string" where
  "urljoin env base url =
     (if base = [] then Inr url
      else if url = [] then Inr base
      else
        case urlparse env base [] of
          Inl e \<Rightarrow> Inl e
        | Inr b \<Rightarrow>
            (case urlparse env url (scheme b) of
               Inl e \<Rightarrow> Inl e
             | Inr u \<Rightarrow>
                 if scheme u \<noteq> scheme b \<or> scheme u \<notin> set uses_relative then Inr url
                 else if scheme u \<in> set uses_netloc \<and> netloc u \<noteq> []
                 then Inr (urlunparse (scheme u) (netloc u) (path u) (params u) (query u) (fragment u))
                 else
                   let nl = (if scheme u \<in> set uses_netloc then netloc b else netloc u) in
                   if path u = [] \<and> params u = []
                   then Inr (urlunparse (scheme u) nl (path b) (params b)
                               (if query u = [] then query b else query u) (fragment u))
                   else
                     let base_parts0 = str_split (path b) (CHR ''/'');
                         base_parts = (if last base_parts0 \<noteq> [] then butlast base_parts0
                                       else base_parts0);
                         segments =
                           (if take 1 (path u) = ''/'' then str_split (path u) (CHR ''/'')
                            else
                              let segs = base_parts @ str_split (path u) (CHR ''/'') in
                              if length segs < 2 then segs
                              else hd segs # filter (\<lambda>seg. seg \<noteq> []) (butlast (tl segs)) @ [last segs]);
                         resolved_path =
                           fold (\<lambda>seg rp. if seg = ''..'' then butlast rp
                                           else if seg = ''.'' then rp
                                           else rp @ [seg])
                                segments [];
                         resolved_path =
                           (if last segments = ''.'' \<or> last segments = ''..''
                            then resolved_path @ [[]] else resolved_path);
                         joined = str_join ''/'' resolved_path
                     in Inr (urlunparse (scheme u) nl (if joined = [] then ''/'' else joined)
                               (params u) (query u) (fragment u))))"

text \<open>
  \<open>s.splitlines()\<close>: the line boundaries below 256 are \<open>\n\<close>, \<open>\r\<close>, \<open>\r\n\<close>,
  \<open>\v\<close>, \<open>\f\<close>, \<open>\x1c\<close>, \<open>\x1d\<close>, \<open>\x1e\<close> and \<open>\x85\<close>; the text after the last
  boundary is a line when it is not empty. \<open>cur\<close> is the line read so far, reversed.
\<close>

definition is_linebreak :: "char \<Rightarrow> bool" where
  "is_linebreak c \<longleftrightarrow>
     (let n = (of_char c :: nat) in (10 \<le> n \<and> n \<le> 13) \<or> (28 \<le> n \<and> n \<le> 30) \<or> n = 133)"

fun splitlines_from :: "string \<Rightarrow> string \<Rightarrow> string list" where
  "splitlines_from cur [] = (if cur = [] then [] else [rev cur])"
| "splitlines_from cur [c] =
     (if is_linebreak c then [rev cur] else [rev (c # cur)])"
| "splitlines_from cur (c # d # s) =
     (if c = CHR 0x0D \<and> d = CHR 0x0A then rev cur # splitlines_from [] s
      else if is_linebreak c then rev cur # splitlines_from [] (d # s)
      else splitlines_from (c # cur) (d # s))"

definition splitlines :: "string \<Rightarrow> string list" where
  "splitlines s = splitlines_from [] s"

section \<open>HTTP and sitemap discovery\<close>

text \<open>
  The network is not part of the program: \<open>net n url\<close> is what the \<open>n\<close>-th request of
  a run gets when it asks for \<open>url\<close> with \<open>session.get(url, allow_redirects=True)\<close>
  and reads the body: an exception, or the status, the body and the headers of the
  response. Every theorem holds for every network.
\<close>

datatype http_reply = HttpRaises | HttpResponse nat bytes "(string \<times> string) list"

type_synonym network = "nat \<Rightarrow> string \<Rightarrow> http_reply"

definition possible_base_urls :: "string \<Rightarrow> string list" where
  "possible_base_urls domain = map (\<lambda>scheme. scheme @ ''://'' @ domain) SCHEMES"

text \<open>
  \<open>fetch_text_bytes\<close>, given the reply to its request. The dict of headers keeps the
  last value of a name; \<open>suppress(OSError)\<close> leaves \<open>raw\<close> as it was, and any other
  exception of \<open>gzip.decompress\<close> reaches \<open>except Exception\<close>.
\<close>

definition fetch_text_bytes ::
  "library \<Rightarrow> http_reply \<Rightarrow> string \<Rightarrow> nat \<times> bytes \<times> (string \<rightharpoonup> string)" where
  "fetch_text_bytes env reply url =
     (case reply of
        HttpRaises \<Rightarrow> (0, [], Map.empty)
      | HttpResponse status raw hdrs \<Rightarrow>
          let headers = map_of (rev (map (\<lambda>(k, v). (str_lower k, v)) hdrs)) in
          if status \<noteq> 200 then (status, [], headers)
          else
            let ctype = str_lower (case headers ''content-type'' of None \<Rightarrow> [] | Some v \<Rightarrow> v);
                is_gz_file = (endswith (str_lower url) ''.gz'' \<or> str_in ''application/gzip'' ctype
                              \<or> str_in ''application/x-gzip'' ctype)
            in if is_gz_file then
                 (case gzip_decompress env raw of
                    Decompressed raw' \<Rightarrow> (status, raw', headers)
                  | GzipOSError \<Rightarrow> (status, raw, headers)
                  | GzipOtherError \<Rightarrow> (0, [], Map.empty))
               else (status, raw, headers))"

text \<open>
  \<open>decode_text\<close>: decoding with \<open>errors="ignore"\<close> never raises, so the \<open>except\<close>
  branch is never taken.
\<close>

definition decode_text :: "library \<Rightarrow> bytes \<Rightarrow> string" where
  "decode_text env raw = (if raw = [] then [] else decode_utf8_ignore env raw)"

text \<open>
  The inner loop of \<open>discover_sitemap_urls\<close>, over the lines of one robots.txt: the
  values it adds to \<open>sitemap_urls\<close>, in order.
  \<^verbatim>\<open>
      for line in text.splitlines():
          if line.lower().startswith("sitemap:"):
              sm = line.split(":", 1)[1].strip()
              if sm:
                  sitemap_urls.add(sm)
  \<close>
\<close>

definition robots_sitemap_lines :: "string \<Rightarrow> string list" where
  "robots_sitemap_lines txt =
     concat (map (\<lambda>line. if startswith (str_lower line) ''sitemap:''
                          then (let sm = str_strip (snd (split1 line (CHR '':'')))
                                in if sm \<noteq> [] then [sm] else [])
                          else [])
                 (splitlines txt))"

text \<open>
  \<open>discover_sitemap_urls\<close>: the loop over \<open>possible_base_urls(domain)\<close>, with the
  number of requests made so far. A \<open>ValueError\<close> of \<open>urljoin\<close> leaves the function.
\<close>

fun discover_loop ::
  "library \<Rightarrow> network \<Rightarrow> string list \<Rightarrow> nat \<Rightarrow> string set \<Rightarrow> py_error + (string set \<times> nat)" where
  "discover_loop env net [] clock sitemap_urls = Inr (sitemap_urls, clock)"
| "discover_loop env net (base # bases) clock sitemap_urls =
     (case urljoin env base ''/robots.txt'' of
        Inl e \<Rightarrow> Inl e
      | Inr robots_url \<Rightarrow>
          let (status, raw, _) = fetch_text_bytes env (net clock robots_url) robots_url;
              sitemap_urls =
                (if status = 200 \<and> raw \<noteq> []
                 then sitemap_urls \<union> set (robots_sitemap_lines (decode_text env raw))
                 else sitemap_urls)
          in (case urljoin env base ''/sitemap.xml'' of
                Inl e \<Rightarrow> Inl e
              | Inr default_url \<Rightarrow>
                  discover_loop env net bases (Suc clock) (insert default_url sitemap_urls)))"

definition discover_sitemap_urls ::
  "library \<Rightarrow> network \<Rightarrow> nat \<Rightarrow> string \<Rightarrow> py_error + (string set \<times> nat)" where
  "discover_sitemap_urls env net clock domain =
     discover_loop env net (possible_base_urls domain) clock {}"

text \<open>
  What discovery owes one base URL, asked as the \<open>n\<close>-th request: the default
  \<open>/sitemap.xml\<close> URL of the base is among \<open>urls\<close>, and when the robots.txt of the
  base came back with status 200, so is the value of every line of the body that
  starts with \<open>sitemap:\<close> in any case and has a value.
\<close>

definition candidates_of_base :: "library \<Rightarrow> network \<Rightarrow> nat \<Rightarrow> string \<Rightarrow> string set \<Rightarrow> bool" where
  "candidates_of_base env net n base urls \<longleftrightarrow>
     (\<forall>d. urljoin env base ''/sitemap.xml'' = Inr d \<longrightarrow> d \<in> urls)
     \<and> (\<forall>r raw hdrs line.
           urljoin env base ''/robots.txt'' = Inr r
           \<longrightarrow> fetch_text_bytes env (net n r) r = (200, raw, hdrs)
           \<longrightarrow> line \<in> set (splitlines (decode_text env raw))
           \<longrightarrow> startswith (str_lower line) ''sitemap:''
           \<longrightarrow> str_strip (snd (split1 line (CHR '':''))) \<noteq> []
           \<longrightarrow> str_strip (snd (split1 line (CHR '':''))) \<in> urls)"

text \<open>
  One network, for running the definitions on examples: the robots.txt of
  \<open>example.com\<close> names one sitemap, with the keyword in mixed case; every other
  request fails.
\<close>

definition network0 :: network where
  "network0 n url =
     (if url = ''https://example.com/robots.txt''
      then HttpResponse 200
             ''User-agent: *\<newline>SiteMap: https://example.com/news.xml\<newline>'' []
      else HttpRaises)"

text \<open>
  Two more: in \<open>network_indented\<close> the robots.txt of \<open>example.com\<close> names its sitemap
  on a line that starts with a blank, and has one more \<open>Sitemap:\<close> line, with no value;
  in \<open>network_not_found\<close> the request for the robots.txt is answered with status 404,
  and the body of the answer names a sitemap.
\<close>

definition network_indented :: network where
  "network_indented n url =
     (if url = ''https://example.com/robots.txt''
      then HttpResponse 200
             '' Sitemap: https://example.com/news.xml\<newline>Sitemap:\<newline>'' []
      else HttpRaises)"

definition network_not_found :: network where
  "network_not_found n url =
     (if url = ''https://example.com/robots.txt''
      then HttpResponse 404 ''Sitemap: https://example.com/news.xml\<newline>'' []
      else HttpRaises)"

section \<open>Sitemap documents\<close>

text \<open>
  \<open>parse_qsl(qs)\<close> of CPython 3.11 with its defaults (\<open>keep_blank_values=False\<close>,
  \<open>strict_parsing=False\<close>, \<open>separator='&'\<close>), which never raises on a \<open>str\<close>:
  \<^verbatim>\<open>
      if not qs:
          return []
      r = []
      for name_value in qs.split(separator):
          if name_value or strict_parsing:
              name, has_eq, value = name_value.partition(eq)
              if value or keep_blank_values:
                  name = _unquote(name)
                  value = _unquote(value)
                  r.append((name, value))
      return r
  \<close>
  The keys of \<open>parse_qs(qs)\<close> are the names of these pairs.
\<close>

definition parse_qsl :: "library \<Rightarrow> string \<Rightarrow> (string \<times> string) list" where
  "parse_qsl env qs =
     (if qs = [] then []
      else concat (map (\<lambda>name_value.
                          if name_value \<noteq> [] then
                            (let (name, val) = split1 name_value (CHR ''='') in
                             if val \<noteq> [] then [(unquote_plus env name, unquote_plus env val)]
                             else [])
                          else [])
                       (str_split qs (CHR ''&''))))"

definition parse_qs_keys :: "library \<Rightarrow> string \<Rightarrow> string list" where
  "parse_qs_keys env qs = map fst (parse_qsl env qs)"

text \<open>
  \<open>is_sitemap_like\<close>. The only call in its \<open>try\<close> block that can raise is
  \<open>urlparse\<close>, and then the function returns \<open>False\<close>.
\<close>

definition is_sitemap_like :: "library \<Rightarrow> string \<Rightarrow> bool" where
  "is_sitemap_like env u =
     (let low = str_lower u in
      if endswith low ''.xml'' \<or> endswith low ''.xml.gz'' then True
      else if str_in ''sitemap'' low then True
      else
        (case urlparse env u [] of
           Inl _ \<Rightarrow> False
         | Inr p \<Rightarrow> list_ex (\<lambda>k. str_in ''sitemap'' (str_lower k)) (parse_qs_keys env (query p))))"

text \<open>
  \<open>_findall_any(elem, "a/b")\<close> is \<open>elem.findall(".//{*}a/{*}b")\<close>: the children
  named \<open>b\<close> of the descendants of \<open>elem\<close> named \<open>a\<close>, in document order, where an
  element is named \<open>a\<close> in any namespace when its tag is \<open>a\<close> or ends with \<open>}a\<close>.
\<close>

definition tag_is :: "string \<Rightarrow> Element \<Rightarrow> bool" where
  "tag_is name e \<longleftrightarrow> tag e = name \<or> endswith (tag e) (CHR ''}'' # name)"

fun descendants :: "Element \<Rightarrow> Element list" where
  "descendants (Element t x cs) = concat (map (\<lambda>c. c # descendants c) cs)"

definition findall_any :: "Element \<Rightarrow> string \<Rightarrow> string \<Rightarrow> Element list" where
  "findall_any elem a b =
     concat (map (\<lambda>e. filter (tag_is b) (children e)) (filter (tag_is a) (descendants elem)))"

text \<open>
  \<open>parse_sitemap_xml\<close>, which returns \<open>(sitemap_urls, page_urls)\<close>. An element's
  \<open>text\<close> is false when it is \<open>None\<close> or empty.
\<close>

definition parse_sitemap_xml :: "library \<Rightarrow> string \<Rightarrow> string list \<times> string list" where
  "parse_sitemap_xml env xml_text =
     (if str_strip xml_text = [] then ([], [])
      else
        case ET_fromstring env xml_text of
          None \<Rightarrow> ([], [])
        | Some root \<Rightarrow>
            let tag0 = tag root;
                tag1 = (if CHR ''}'' \<in> set tag0 then snd (split1 tag0 (CHR ''}'')) else tag0)
            in if str_lower tag1 = ''sitemapindex'' then
                 (concat (map (\<lambda>loc. case text_of loc of
                                         None \<Rightarrow> []
                                       | Some t \<Rightarrow> if t = [] then [] else [str_strip t])
                              (findall_any root ''sitemap'' ''loc'')),
                  [])
               else
                 (let urls = concat (map (\<lambda>loc. case text_of loc of
                                                    None \<Rightarrow> []
                                                  | Some t \<Rightarrow> if t = [] then [] else [str_strip t])
                                         (findall_any root ''url'' ''loc''))
                  in (filter (is_sitemap_like env) urls,
                      filter (\<lambda>url. \<not> is_sitemap_like env url) urls)))"

text \<open>
  A second example: the site \<open>a.io\<close> has no robots.txt; its \<open>/sitemap.xml\<close> is an
  index that names \<open>/news.xml\<close> twice and itself, and \<open>/news.xml\<close> is a urlset with a page
  that carries a fragment, an image, a page of another site, and two more sitemaps,
  one padded with blanks and one followed by a line break, which cannot be fetched. The two bodies stand for the documents that
  \<open>ET_fromstring\<close> of \<open>library1\<close> reads from them.
\<close>

definition index_doc :: Element where
  "index_doc =
     Element ''sitemapindex'' None
       [Element ''sitemap'' None [Element ''loc'' (Some ''https://a.io/news.xml'') []],
        Element ''sitemap'' None [Element ''loc'' (Some ''https://a.io/sitemap.xml'') []],
        Element ''sitemap'' None [Element ''loc'' (Some ''https://a.io/news.xml'') []]]"

definition urlset_doc :: Element where
  "urlset_doc =
     Element ''{ns}urlset'' None
       [Element ''{ns}url'' None [Element ''{ns}loc'' (Some ''https://a.io/p#top'') []],
        Element ''{ns}url'' None [Element ''{ns}loc'' (Some ''https://a.io/pic.jpg'') []],
        Element ''{ns}url'' None [Element ''{ns}loc'' (Some ''https://b.io/x'') []],
        Element ''{ns}url'' None [Element ''{ns}loc'' (Some '' https://a.io/News-Sitemap '') []],
        Element ''{ns}url'' None [Element ''{ns}loc'' (Some ''https://a.io/Feed.XML\<newline>'') []]]"

definition library1 :: library where
  "library1 =
     library0\<lparr>ET_fromstring :=
                (\<lambda>xml_text. if xml_text = ''<index>'' then Some index_doc
                             else if xml_text = ''<urlset>'' then Some urlset_doc
                             else None)\<rparr>"

definition network1 :: network where
  "network1 n url =
     (if url = ''https://a.io/sitemap.xml'' then HttpResponse 200 ''<index>'' []
      else if url = ''https://a.io/news.xml'' then HttpResponse 200 ''<urlset>'' []
      else HttpRaises)"

section \<open>The sitemap traversal\<close>

text \<open>
  \<open>same_domain\<close> catches every exception, and the only call that can raise is
  \<open>urlparse\<close>; \<open>is_binary_url\<close> catches none.
\<close>

definition same_domain :: "library \<Rightarrow> string \<Rightarrow> string list \<Rightarrow> bool" where
  "same_domain env url domains =
     (case urlparse env url [] of
        Inl _ \<Rightarrow> False
      | Inr p \<Rightarrow>
          let host = str_lower (netloc p)
          in list_ex (\<lambda>d. host = d \<or> endswith host (''.'' @ d)) domains)"

definition is_binary_url :: "library \<Rightarrow> string \<Rightarrow> py_error + bool" where
  "is_binary_url env url =
     (case urlparse env url [] of
        Inl e \<Rightarrow> Inl e
      | Inr p \<Rightarrow> Inr (list_ex (\<lambda>ext. endswith (str_lower (path p)) ext) BINARY_EXTS))"

text \<open>
  The state of the \<open>while\<close> loop of \<open>gather_pages_from_sitemaps\<close>: its four variables,
  the number of requests the run has made, and two history variables that the program
  does not have: the URLs it has fetched, and those whose document it has handed to
  \<open>parse_sitemap_xml\<close>, both in order.
\<close>

record traversal =
  to_process :: "string list"
  seen_sitemaps :: "string set"
  processed_count :: nat
  pages :: "string set"
  requests :: nat
  fetched :: "string list"
  parsed :: "string list"

text \<open>
  The loop that collects page URLs, with its \<open>break\<close>:
  \<^verbatim>\<open>
      for u in url_pages:
          if same_domain(u, domains) and not is_binary_url(u):
              pages.add(urldefrag(u)[0])
              if len(pages) >= MAX_PAGES:
                  break
  \<close>
\<close>

fun collect_pages ::
  "config \<Rightarrow> library \<Rightarrow> string list \<Rightarrow> string set \<Rightarrow> string list \<Rightarrow> py_error + string set" where
  "collect_pages cfg env domains pgs [] = Inr pgs"
| "collect_pages cfg env domains pgs (u # us) =
     (if same_domain env u domains then
        (case is_binary_url env u of
           Inl e \<Rightarrow> Inl e
         | Inr binary \<Rightarrow>
             if \<not> binary then
               (case urldefrag env u of
                  Inl e \<Rightarrow> Inl e
                | Inr (defragged, _) \<Rightarrow>
                    let pgs' = insert defragged pgs
                    in if MAX_PAGES cfg \<le> int (card pgs') then Inr pgs'
                       else collect_pages cfg env domains pgs' us)
             else collect_pages cfg env domains pgs us)
      else collect_pages cfg env domains pgs us)"

text \<open>
  One pass through the body of the \<open>while\<close> loop, from \<open>sm_url = to_process.pop()\<close>
  to the end of the body or a \<open>continue\<close>. The progress bar and the log lines are
  left out.
\<close>

definition sitemap_step ::
  "config \<Rightarrow> library \<Rightarrow> network \<Rightarrow> string list \<Rightarrow> traversal \<Rightarrow> py_error + traversal" where
  "sitemap_step cfg env net domains st =
     (let sm_url = last (to_process st);
          st1 = st\<lparr>to_process := butlast (to_process st)\<rparr>
      in if sm_url \<in> seen_sitemaps st1 then Inr st1
         else
           let st2 = st1\<lparr>seen_sitemaps := insert sm_url (seen_sitemaps st1),
                         processed_count := Suc (processed_count st1),
                         requests := Suc (requests st1),
                         fetched := fetched st1 @ [sm_url]\<rparr>;
               (status, raw, headers) = fetch_text_bytes env (net (requests st1) sm_url) sm_url
           in if status \<noteq> 200 \<or> raw = [] then Inr st2
              else
                let xml_text = decode_text env raw
                in if \<not> startswith (str_strip xml_text) ''<'' then Inr st2
                   else
                     let (nested_sitemaps, url_pages) = parse_sitemap_xml env xml_text;
                         st3 = st2\<lparr>to_process :=
                                      to_process st2
                                      @ filter (\<lambda>u. u \<notin> seen_sitemaps st2) nested_sitemaps,
                                    parsed := parsed st2 @ [sm_url]\<rparr>
                     in (case collect_pages cfg env domains (pages st3) url_pages of
                           Inl e \<Rightarrow> Inl e
                         | Inr pgs \<Rightarrow> Inr (st3\<lparr>pages := pgs\<rparr>)))"

text \<open>The condition of the \<open>while\<close> loop.\<close>

definition loop_condition :: "config \<Rightarrow> traversal \<Rightarrow> bool" where
  "loop_condition cfg st \<longleftrightarrow>
     to_process st \<noteq> [] \<and> int (card (pages st)) < MAX_PAGES cfg \<and> processed_count st < SITEMAP_CAP"

text \<open>
  The \<open>while\<close> loop. It ends: a pass either takes an URL that was seen already off
  the worklist, or counts one more document, and the loop stops at \<open>SITEMAP_CAP\<close>
  documents.
\<close>

lemma sitemap_step_measure:
  assumes "loop_condition cfg st" "sitemap_step cfg env net domains st = Inr st'"
  shows "(st', st) \<in> measures [\<lambda>s. SITEMAP_CAP - processed_count s, \<lambda>s. length (to_process s)]"
  using assms
  by (auto simp: sitemap_step_def loop_condition_def Let_def
           split: if_splits prod.splits sum.splits)

function sitemap_loop ::
  "config \<Rightarrow> library \<Rightarrow> network \<Rightarrow> string list \<Rightarrow> traversal \<Rightarrow> py_error + traversal" where
  "sitemap_loop cfg env net domains st =
     (if loop_condition cfg st then
        (case sitemap_step cfg env net domains st of
           Inl e \<Rightarrow> Inl e
         | Inr st' \<Rightarrow> sitemap_loop cfg env net domains st')
      else Inr st)"
  by pat_completeness auto
termination
proof (relation "inv_image (measures [\<lambda>s. SITEMAP_CAP - processed_count s, \<lambda>s. length (to_process s)])
                   (\<lambda>(cfg, env, net, domains, st). st)")
  show "wf (inv_image (measures [\<lambda>s. SITEMAP_CAP - processed_count s, \<lambda>s. length (to_process s)])
                   (\<lambda>(cfg, env, net, domains, st). st))"
    by simp
next
  fix cfg :: config and env :: library and net :: network and domains :: "string list"
    and st st' :: traversal
  assume "loop_condition cfg st" "sitemap_step cfg env net domains st = Inr st'"
  then show "((cfg, env, net, domains, st'), (cfg, env, net, domains, st))
               \<in> inv_image (measures [\<lambda>s. SITEMAP_CAP - processed_count s, \<lambda>s. length (to_process s)])
                   (\<lambda>(cfg, env, net, domains, st). st)"
    using sitemap_step_measure by simp
qed

text \<open>
  \<open>gather_pages_from_sitemaps\<close>: discovery for each domain in turn, then the loop
  from \<open>to_process = list(candidate_sitemaps)\<close>. The program returns \<open>pages\<close> and
  writes \<open>seen_sitemaps\<close> and \<open>pages\<close> to files; the model returns the last state of
  the loop.
\<close>

fun discover_all ::
  "library \<Rightarrow> network \<Rightarrow> nat \<Rightarrow> string set \<Rightarrow> string list \<Rightarrow> py_error + (string set \<times> nat)" where
  "discover_all env net n candidate_sitemaps [] = Inr (candidate_sitemaps, n)"
| "discover_all env net n candidate_sitemaps (d # ds) =
     (case discover_sitemap_urls env net n d of
        Inl e \<Rightarrow> Inl e
      | Inr (urls, n') \<Rightarrow> discover_all env net n' (candidate_sitemaps \<union> urls) ds)"

definition initial_traversal :: "string list \<Rightarrow> nat \<Rightarrow> traversal" where
  "initial_traversal candidates n =
     \<lparr>to_process = candidates, seen_sitemaps = {}, processed_count = 0, pages = {},
      requests = n, fetched = [], parsed = []\<rparr>"

definition gather_pages_from_sitemaps ::
  "config \<Rightarrow> library \<Rightarrow> network \<Rightarrow> string list \<Rightarrow> py_error + traversal" where
  "gather_pages_from_sitemaps cfg env net domains =
     (case discover_all env net 0 {} domains of
        Inl e \<Rightarrow> Inl e
      | Inr (candidate_sitemaps, n) \<Rightarrow>
          sitemap_loop cfg env net domains
            (initial_traversal (list_of_set env candidate_sitemaps) n))"

text \<open>
  The state of the loop after \<open>k\<close> passes, or its last state if it ends before: what
  an observer of the run sees at any moment between two passes.
\<close>

fun sitemap_passes ::
  "nat \<Rightarrow> config \<Rightarrow> library \<Rightarrow> network \<Rightarrow> string list \<Rightarrow> traversal \<Rightarrow> py_error + traversal" where
  "sitemap_passes 0 cfg env net domains st = Inr st"
| "sitemap_passes (Suc k) cfg env net domains st =
     (if loop_condition cfg st then
        (case sitemap_step cfg env net domains st of
           Inl e \<Rightarrow> Inl e
         | Inr st' \<Rightarrow> sitemap_passes k cfg env net domains st')
      else Inr st)"

text \<open>
  Two invariants of the loop. The caps: the set of pages is finite and within
  \<open>MAX_PAGES\<close> (empty, when \<open>MAX_PAGES\<close> is not positive), the count of documents is
  within \<open>SITEMAP_CAP\<close> and is the number of URLs fetched, and no more documents were
  parsed than fetched. Visits: no URL was
  fetched twice, the URLs fetched are the URLs seen, and the documents parsed are
  documents fetched, each parsed once.
\<close>

definition caps_inv :: "config \<Rightarrow> traversal \<Rightarrow> bool" where
  "caps_inv cfg st \<longleftrightarrow>
     finite (pages st) \<and> int (card (pages st)) \<le> max 0 (MAX_PAGES cfg)
     \<and> processed_count st \<le> SITEMAP_CAP
     \<and> length (fetched st) = processed_count st
     \<and> length (parsed st) \<le> length (fetched st)"

definition visits_inv :: "traversal \<Rightarrow> bool" where
  "visits_inv st \<longleftrightarrow>
     distinct (fetched st)
     \<and> set (fetched st) = seen_sitemaps st
     \<and> distinct (parsed st)
     \<and> set (parsed st) \<subseteq> set (fetched st)"

section \<open>The robots rules\<close>

text \<open>
  \<open>urllib.robotparser.RobotFileParser\<close> of CPython 3.11, as far as the program uses
  it: the three flags that \<open>can_fetch\<close> looks at first, with \<open>last_checked\<close> standing
  for "the time of the last fetch is not zero", and the lines that \<open>parse\<close> was given.
  The fields \<open>host\<close> and \<open>path\<close> are written by \<open>set_url\<close> and never read.
  \<^verbatim>\<open>
      def __init__(self, url=''):
          self.entries = []
          self.sitemaps = []
          self.default_entry = None
          self.disallow_all = False
          self.allow_all = False
          self.set_url(url)
          self.last_checked = 0
  \<close>
\<close>

record RobotFileParser =
  rp_url :: string
  disallow_all :: bool
  allow_all :: bool
  last_checked :: bool
  rp_lines :: "string list"

definition RobotFileParser_init :: RobotFileParser where
  "RobotFileParser_init =
     \<lparr>rp_url = [], disallow_all = False, allow_all = False, last_checked = False,
      rp_lines = []\<rparr>"

text \<open>
  \<open>set_url\<close> stores the URL and then parses it, which can raise:
  \<^verbatim>\<open>
      self.url = url
      self.host, self.path = urllib.parse.urlparse(url)[1:3]
  \<close>
\<close>

definition set_url ::
  "library \<Rightarrow> RobotFileParser \<Rightarrow> string \<Rightarrow> py_error option \<times> RobotFileParser" where
  "set_url env rp robots_url =
     (case urlparse env robots_url [] of
        Inl e \<Rightarrow> (Some e, rp\<lparr>rp_url := robots_url\<rparr>)
      | Inr _ \<Rightarrow> (None, rp\<lparr>rp_url := robots_url\<rparr>))"

text \<open>
  \<open>parse\<close> calls \<open>self.modified()\<close>, which sets \<open>last_checked\<close> to the time, before
  it reads the first line.
\<close>

definition parse ::
  "library \<Rightarrow> RobotFileParser \<Rightarrow> string list \<Rightarrow> py_error option \<times> RobotFileParser" where
  "parse env rp lines =
     (rules_parse_error env lines, rp\<lparr>last_checked := True, rp_lines := lines\<rparr>)"

text \<open>
  What \<open>urllib.request.urlopen(url)\<close> and the \<open>read\<close> of its result do: an
  \<open>HTTPError\<close> with its code, another exception (\<open>URLError\<close> when the host cannot be
  reached, a timeout), or the body. As the network, it is not part of the program.
  \<^verbatim>\<open>
      def read(self):
          try:
              f = urllib.request.urlopen(self.url)
          except urllib.error.HTTPError as err:
              if err.code in (401, 403):
                  self.disallow_all = True
              elif err.code >= 400 and err.code < 500:
                  self.allow_all = True
          else:
              raw = f.read()
              self.parse(raw.decode("utf-8").splitlines())
  \<close>
\<close>

datatype urlopen_reply = UrlopenRaises | UrlopenHTTPError nat | UrlopenBody bytes

type_synonym urlopen = "string \<Rightarrow> urlopen_reply"

definition read ::
  "library \<Rightarrow> urlopen \<Rightarrow> RobotFileParser \<Rightarrow> py_error option \<times> RobotFileParser" where
  "read env opener rp =
     (case opener (rp_url rp) of
        UrlopenRaises \<Rightarrow> (Some URLError, rp)
      | UrlopenHTTPError code \<Rightarrow>
          (None,
           if code = 401 \<or> code = 403 then rp\<lparr>disallow_all := True\<rparr>
           else if 400 \<le> code \<and> code < 500 then rp\<lparr>allow_all := True\<rparr>
           else rp)
      | UrlopenBody raw \<Rightarrow>
          (case decode_utf8_strict env raw of
             None \<Rightarrow> (Some UnicodeDecodeError, rp)
           | Some txt \<Rightarrow> parse env rp (splitlines txt)))"

text \<open>
  \<^verbatim>\<open>
      def can_fetch(self, useragent, url):
          if self.disallow_all:
              return False
          if self.allow_all:
              return True
          # Until the robots.txt file has been read or found not
          # to exist, we must assume that no url is allowable.
          # This prevents false positives when a user erroneously
          # calls can_fetch() before calling read().
          if not self.last_checked:
              return False
          ...
  \<close>
  and then the answer of the rules.
\<close>

definition can_fetch :: "library \<Rightarrow> RobotFileParser \<Rightarrow> string \<Rightarrow> string \<Rightarrow> py_error + bool" where
  "can_fetch env rp useragent url =
     (if disallow_all rp then Inr False
      else if allow_all rp then Inr True
      else if \<not> last_checked rp then Inr False
      else rules_can_fetch env (rp_lines rp) useragent url)"

section \<open>The site scanner\<close>

text \<open>
  The fields of a \<open>SiteScanner\<close> that its methods read or write; the semaphore and the
  HTTP session are left to the network.
  \<^verbatim>\<open>
      def __init__(self, domains: List[str], patterns: Set[str]):
          self.domains = domains
          self.patterns = patterns
          self.matcher = Matcher(patterns)
          self.matches: Dict[str, Set[str]] = {p: set() for p in patterns}
          self.rp_by_domain: Dict[str, robotparser.RobotFileParser] = {}
  \<close>
  \<open>have_aho\<close> says whether the import of \<open>ahocorasick\<close> succeeded.
\<close>

record SiteScanner =
  self_domains :: "string list"
  self_patterns :: "string set"
  self_matcher :: Matcher
  self_matches :: "string \<rightharpoonup> string set"
  self_rp_by_domain :: "string \<rightharpoonup> RobotFileParser"

definition SiteScanner_init :: "library \<Rightarrow> bool \<Rightarrow> string list \<Rightarrow> string set \<Rightarrow> SiteScanner" where
  "SiteScanner_init env have_aho ds ps =
     \<lparr>self_domains = ds, self_patterns = ps,
      self_matcher = Matcher_init have_aho (list_of_set env ps),
      self_matches = (\<lambda>p. if p \<in> ps then Some {} else None),
      self_rp_by_domain = Map.empty\<rparr>"

text \<open>
  \<open>SiteScanner.init\<close>, the loop that loads the rules of each domain. \<open>urljoin\<close> stands
  outside \<open>suppress(Exception)\<close>; when \<open>set_url\<close> raises, \<open>read\<close> is not called.
  \<^verbatim>\<open>
      for d in self.domains:
          rp = robotparser.RobotFileParser()
          base = possible_base_urls(d)[0]
          robots_url = urljoin(base, "/robots.txt")
          with suppress(Exception):
              rp.set_url(robots_url)
              rp.read()
          self.rp_by_domain[d] = rp
  \<close>
\<close>

fun init_loop ::
  "library \<Rightarrow> urlopen \<Rightarrow> string list \<Rightarrow> (string \<rightharpoonup> RobotFileParser)
     \<Rightarrow> py_error + (string \<rightharpoonup> RobotFileParser)" where
  "init_loop env opener [] rps = Inr rps"
| "init_loop env opener (d # ds) rps =
     (case urljoin env (hd (possible_base_urls d)) ''/robots.txt'' of
        Inl e \<Rightarrow> Inl e
      | Inr robots_url \<Rightarrow>
          let (raised, rp1) = set_url env RobotFileParser_init robots_url;
              rp2 = (case raised of Some _ \<Rightarrow> rp1 | None \<Rightarrow> snd (read env opener rp1))
          in init_loop env opener ds (rps(d \<mapsto> rp2)))"

definition init :: "library \<Rightarrow> urlopen \<Rightarrow> SiteScanner \<Rightarrow> py_error + SiteScanner" where
  "init env opener sc =
     (case init_loop env opener (self_domains sc) (self_rp_by_domain sc) of
        Inl e \<Rightarrow> Inl e
      | Inr rps \<Rightarrow> Inr (sc\<lparr>self_rp_by_domain := rps\<rparr>))"

text \<open>
  \<open>allowed\<close>. \<open>is_binary_url\<close> is called outside the \<open>try\<close> block; inside it, every
  exception leads to \<open>return True\<close>. An empty domain is false in \<open>if dom and ...\<close>.
  \<^verbatim>\<open>
      if not same_domain(url, self.domains):
          return False
      if is_binary_url(url):
          return False
      try:
          host = urlparse(url).netloc.lower()
          dom = next((d for d in self.domains if host == d or host.endswith("." + d)), None)
          if dom and dom in self.rp_by_domain:
              return self.rp_by_domain[dom].can_fetch(USER_AGENT, url)
      except Exception:
          pass
      return True
  \<close>
\<close>

definition allowed :: "library \<Rightarrow> SiteScanner \<Rightarrow> string \<Rightarrow> py_error + bool" where
  "allowed env sc url =
     (if \<not> same_domain env url (self_domains sc) then Inr False
      else
        case is_binary_url env url of
          Inl e \<Rightarrow> Inl e
        | Inr binary \<Rightarrow>
            if binary then Inr False
            else
              (case urlparse env url [] of
                 Inl _ \<Rightarrow> Inr True
               | Inr p \<Rightarrow>
                   let host = str_lower (netloc p)
                   in (case find (\<lambda>d. host = d \<or> endswith host (''.'' @ d)) (self_domains sc) of
                         None \<Rightarrow> Inr True
                       | Some dom' \<Rightarrow>
                           if dom' \<noteq> [] then
                             (case self_rp_by_domain sc dom' of
                                None \<Rightarrow> Inr True
                              | Some rp \<Rightarrow>
                                  (case can_fetch env rp USER_AGENT url of
                                     Inl _ \<Rightarrow> Inr True
                                   | Inr answer \<Rightarrow> Inr answer))
                           else Inr True)))"

text \<open>
  An example: the host \<open>example.com\<close> cannot be reached, so \<open>urlopen\<close> raises for
  every URL.
\<close>

definition urlopen_unreachable :: urlopen where
  "urlopen_unreachable robots_url = UrlopenRaises"

text \<open>
  \<open>fetch_html\<close>, given the reply to its request: the empty string for an exception
  and for a status other than 200.
\<close>

definition fetch_html :: "library \<Rightarrow> http_reply \<Rightarrow> string" where
  "fetch_html env reply =
     (case reply of
        HttpRaises \<Rightarrow> []
      | HttpResponse status raw hdrs \<Rightarrow> if status \<noteq> 200 then [] else decode_text env raw)"

text \<open>
  \<open>extract_hrefs\<close>: \<open>urljoin\<close> and \<open>urldefrag\<close> are not guarded.
  \<^verbatim>\<open>
      for a in soup.find_all("a", href=True):
          href = a.get("href")
          if not href:
              continue
          absu = urljoin(base_url, href)
          absu, _ = urldefrag(absu)
          hrefs.append(absu)
  \<close>
\<close>

fun extract_loop :: "library \<Rightarrow> string \<Rightarrow> string list \<Rightarrow> py_error + string list" where
  "extract_loop env base_url [] = Inr []"
| "extract_loop env base_url (href # rest) =
     (if href = [] then extract_loop env base_url rest
      else
        case urljoin env base_url href of
          Inl e \<Rightarrow> Inl e
        | Inr absu \<Rightarrow>
            (case urldefrag env absu of
               Inl e \<Rightarrow> Inl e
             | Inr (absu', _) \<Rightarrow>
                 (case extract_loop env base_url rest of
                    Inl e \<Rightarrow> Inl e
                  | Inr hrefs \<Rightarrow> Inr (absu' # hrefs))))"

definition extract_hrefs :: "library \<Rightarrow> string \<Rightarrow> string \<Rightarrow> py_error + string list" where
  "extract_hrefs env base_url html_text = extract_loop env base_url (soup_a_href env html_text)"

text \<open>
  The body of the loop that records the matches of one page, and the loop; a pattern
  that is no key of \<open>matches\<close> raises \<open>KeyError\<close>, and what was recorded before stays.
  \<^verbatim>\<open>
      for pat in found:
          if len(self.matches[pat]) < MAX_MATCH_PAGES_PER_QUERY:
              self.matches[pat].add(url)
  \<close>
\<close>

definition record_match ::
  "string \<Rightarrow> string \<Rightarrow> (string \<rightharpoonup> string set) \<Rightarrow> py_error + (string \<rightharpoonup> string set)" where
  "record_match url pat matches =
     (case matches pat of
        None \<Rightarrow> Inl KeyError
      | Some pgs \<Rightarrow>
          if card pgs < MAX_MATCH_PAGES_PER_QUERY then Inr (matches(pat \<mapsto> insert url pgs))
          else Inr matches)"

fun record_matches ::
  "string \<Rightarrow> string list \<Rightarrow> (string \<rightharpoonup> string set)
     \<Rightarrow> py_error option \<times> (string \<rightharpoonup> string set)" where
  "record_matches url [] matches = (None, matches)"
| "record_matches url (pat # pats) matches =
     (case record_match url pat matches of
        Inl e \<Rightarrow> (Some e, matches)
      | Inr matches' \<Rightarrow> record_matches url pats matches')"

text \<open>
  \<open>scan_page\<close>, given the network's reply to the request of \<open>fetch_html\<close>: the
  exception it raises, if any, and the scanner afterwards.
  \<^verbatim>\<open>
      if not self.allowed(url):
          return
      html_text = await self.fetch_html(url)
      if not html_text:
          return
      blobs: List[str] = []
      hrefs = self.extract_hrefs(url, html_text)
      if hrefs:
          blobs.append("\n".join(hrefs))
      if SCAN_HTML_BODY_TOO:
          blobs.append(html_text)
      blob = "\n".join(blobs)
      found = self.matcher.find_in(blob)
      for pat in found: ...
  \<close>
\<close>

definition scan_page ::
  "config \<Rightarrow> library \<Rightarrow> http_reply \<Rightarrow> SiteScanner \<Rightarrow> string \<Rightarrow> py_error option \<times> SiteScanner" where
  "scan_page cfg env reply sc url =
     (case allowed env sc url of
        Inl e \<Rightarrow> (Some e, sc)
      | Inr ok \<Rightarrow>
          if \<not> ok then (None, sc)
          else
            let html_text = fetch_html env reply
            in if html_text = [] then (None, sc)
               else
                 (case extract_hrefs env url html_text of
                    Inl e \<Rightarrow> (Some e, sc)
                  | Inr hrefs \<Rightarrow>
                      let blobs = (if hrefs \<noteq> [] then [str_join ''\<newline>'' hrefs] else [])
                                  @ (if SCAN_HTML_BODY_TOO cfg then [html_text] else []);
                          blob = str_join ''\<newline>'' blobs
                      in (case find_in (self_matcher sc) blob of
                            Inl e \<Rightarrow> (Some e, sc)
                          | Inr found \<Rightarrow>
                              let (raised, matches') =
                                    record_matches url (list_of_set env found) (self_matches sc)
                              in (raised, sc\<lparr>self_matches := matches'\<rparr>))))"

text \<open>
  Phase 2. \<open>run\<close> makes one task of \<open>scan_page\<close> for each page and awaits them as
  they complete. A task gives up control only while it waits for the network in
  \<open>fetch_html\<close>, so from the reply on it runs undisturbed, and the scanner after a run
  is the scanner after the scans in the order in which their replies came. That
  order is not the program's to choose: \<open>scan_pages\<close> takes the pages in any order,
  the \<open>n\<close>-th request being the \<open>n\<close>-th reply, and goes on after a scan that raised,
  as the other tasks do.
\<close>

fun scan_pages ::
  "config \<Rightarrow> library \<Rightarrow> network \<Rightarrow> nat \<Rightarrow> SiteScanner \<Rightarrow> string list \<Rightarrow> SiteScanner" where
  "scan_pages cfg env net n sc [] = sc"
| "scan_pages cfg env net n sc (url # urls) =
     scan_pages cfg env net (Suc n) (snd (scan_page cfg env (net n url) sc url)) urls"

text \<open>
  For examples: a hundred pages, and one network on which the page
  \<open>https://example.com/page\<close> mentions \<open>example.com/a\<close>.
\<close>

definition hundred_pages :: "string set" where
  "hundred_pages = (\<lambda>i. ''https://example.com/p'' @ replicate i (CHR ''x'')) ` {..<100}"

definition network_page :: network where
  "network_page n url =
     (if url = ''https://example.com/page''
      then HttpResponse 200 ''see http://example.com/a'' []
      else HttpRaises)"

text \<open>The cap on a match table: each of its sets is finite, with at most the cap in it.\<close>

definition within_cap :: "(string \<rightharpoonup> string set) \<Rightarrow> bool" where
  "within_cap matches \<longleftrightarrow>
     (\<forall>pat pgs. matches pat = Some pgs \<longrightarrow> finite pgs \<and> card pgs \<le> MAX_MATCH_PAGES_PER_QUERY)"

section \<open>Properties of the variant normalizer\<close>

lemmas url_eval =
  urlsplit_def c0_control_or_space_def str_find_def isascii_def ascii_isalpha_def
  scheme_chars_def str_lower_def lower_char_def cased_upper_def cased_lower_def splitnetloc_def split1_def Let_def
  urlparse_def uses_params_def urldefrag_def urlunparse_def urlunsplit_def uses_netloc_def

lemma str_strip_blank:
  assumes "list_all isspace t"
  shows "str_strip t = []"
proof -
  have a: "dropWhile isspace t = []"
    using assms by (simp add: list_all_iff)
  show ?thesis
    unfolding str_strip_def str_lstrip_def str_rstrip_def a by simp
qed

lemma normalize_variants_length:
  "normalize_variants env t = Inr V \<Longrightarrow> v \<in> V \<Longrightarrow> 6 \<le> length v"
  by (auto simp: normalize_variants_def Let_def split: if_splits sum.splits prod.splits)

lemma urldefrag_example:
  "urldefrag env ''https://www.example.com/a/b#frag'' = Inr (''https://www.example.com/a/b'', ''frag'')"
  by (simp add: url_eval)

lemma urlparse_example:
  "urlparse env ''https://www.example.com/a/b'' [] =
     Inr \<lparr>scheme = ''https'', netloc = ''www.example.com'', path = ''/a/b'', params = [],
          query = [], fragment = []\<rparr>"
  by (simp add: url_eval)

lemma str_strip_example:
  "str_strip ''https://www.example.com/a/b#frag'' = ''https://www.example.com/a/b#frag''"
  by (simp add: str_strip_def str_lstrip_def str_rstrip_def isspace_def)

lemma normalize_variants_example:
  "\<exists>V. normalize_variants env ''https://www.example.com/a/b#frag'' = Inr V
       \<and> ''https://www.example.com/a/b#frag'' \<in> V
       \<and> ''https://www.example.com/a/b'' \<in> V
       \<and> ''www.example.com/a/b'' \<in> V
       \<and> ''example.com/a/b'' \<in> V"
  by (simp add: normalize_variants_def str_strip_example html_unescape_def urldefrag_example
        urlparse_example startswith_def Let_def)

lemma normalize_variants_short:
  "normalize_variants library0 ''a.b#cdefg'' = Inr {''a.b#cdefg''}"
proof -
  have s: "str_strip ''a.b#cdefg'' = ''a.b#cdefg''"
    by (simp add: str_strip_def str_lstrip_def str_rstrip_def isspace_def)
  have d: "urldefrag library0 ''a.b#cdefg'' = Inr (''a.b'', ''cdefg'')"
    by (simp add: url_eval)
  have p: "urlparse library0 ''a.b'' [] =
             Inr \<lparr>scheme = [], netloc = [], path = ''a.b'', params = [], query = [],
                  fragment = []\<rparr>"
    by (simp add: url_eval)
  have q: "quote ''a.b#cdefg'' quote_safe = ''a.b#cdefg''" "quote ''a.b'' quote_safe = ''a.b''"
    by (simp_all add: quote_def quote_safe_def utf8_encode_def always_safe_def isascii_def)
  show ?thesis
    by (auto simp: normalize_variants_def s html_unescape_def d p q Let_def)
qed

text \<open>
  Claim C7. For the input \<open>https://www.example.com/a/b#frag\<close>, whatever the library
  does, \<open>normalize_variants\<close> returns a set that holds the input itself, the input
  without its fragment, the form without the scheme \<open>www.example.com/a/b\<close> and the
  form without \<open>www.\<close>, \<open>example.com/a/b\<close>; and for every input on which it returns,
  no element of the returned set is shorter than 6 characters.
\<close>

theorem normalize_variants_example_and_min_length:
  "(\<exists>V. normalize_variants env ''https://www.example.com/a/b#frag'' = Inr V
        \<and> ''https://www.example.com/a/b#frag'' \<in> V
        \<and> ''https://www.example.com/a/b'' \<in> V
        \<and> ''www.example.com/a/b'' \<in> V
        \<and> ''example.com/a/b'' \<in> V)
   \<and> (\<forall>t V v. normalize_variants env t = Inr V \<longrightarrow> v \<in> V \<longrightarrow> 6 \<le> length v)"
  using normalize_variants_example [of env] normalize_variants_length [of env] by blast

theorem normalize_variants_example_and_min_length_witness:
  "normalize_variants library0 ''a.b#cdefg'' = Inr {''a.b#cdefg''}
   \<and> ''a.b#cdefg'' \<in> {''a.b#cdefg''}
   \<and> 6 \<le> length ''a.b#cdefg''"
proof -
  have h: "normalize_variants library0 ''a.b#cdefg'' = Inr {''a.b#cdefg''}"
    by (rule normalize_variants_short)
  have m: "''a.b#cdefg'' \<in> {''a.b#cdefg''}"
    by simp
  from normalize_variants_example_and_min_length [of library0]
  have "normalize_variants library0 ''a.b#cdefg'' = Inr {''a.b#cdefg''}
          \<longrightarrow> ''a.b#cdefg'' \<in> {''a.b#cdefg''} \<longrightarrow> 6 \<le> length ''a.b#cdefg''"
    by blast
  with h m show ?thesis by blast
qed

text \<open>
  Claim C10. For every input that is empty or made of whitespace only (\<open>str.isspace\<close>
  holds of each of its characters), \<open>normalize_variants\<close> returns, and returns the empty
  set.
\<close>

theorem normalize_variants_blank:
  "list_all isspace target \<Longrightarrow> normalize_variants env target = Inr {}"
  by (simp add: normalize_variants_def str_strip_blank)

theorem normalize_variants_blank_witness:
  "list_all isspace [CHR '' '', CHR 0x09, CHR 0x0A, CHR 0xA0]
   \<and> normalize_variants library0 [CHR '' '', CHR 0x09, CHR 0x0A, CHR 0xA0] = Inr {}"
proof -
  have h: "list_all isspace [CHR '' '', CHR 0x09, CHR 0x0A, CHR 0xA0]"
    by (simp add: isspace_def)
  show ?thesis
    using h normalize_variants_blank [OF h, of library0] by blast
qed

section \<open>Properties of the pattern matcher\<close>

text \<open>\<open>p in t\<close> is the substring test: \<open>t\<close> is some text, \<open>p\<close>, some text.\<close>

lemma str_in_iff: "str_in p t \<longleftrightarrow> (\<exists>a b. t = a @ p @ b)"
proof (induction t)
  case Nil
  then show ?case by auto
next
  case (Cons c t)
  show ?case
  proof
    assume "str_in p (c # t)"
    then consider "prefix p (c # t)" | "str_in p t" by auto
    then show "\<exists>a b. c # t = a @ p @ b"
    proof cases
      case 1
      then obtain b where "c # t = p @ b" by (auto simp: prefix_def)
      then have "c # t = [] @ p @ b" by simp
      then show ?thesis by blast
    next
      case 2
      then obtain a b where "t = a @ p @ b" using Cons.IH by blast
      then have "c # t = (c # a) @ p @ b" by simp
      then show ?thesis by blast
    qed
  next
    assume "\<exists>a b. c # t = a @ p @ b"
    then obtain a b where ab: "c # t = a @ p @ b" by blast
    show "str_in p (c # t)"
    proof (cases a)
      case Nil
      then have "prefix p (c # t)" using ab by (simp add: prefix_def)
      then show ?thesis by simp
    next
      case (Cons x a')
      then have "t = a' @ p @ b" using ab by simp
      then have "str_in p t" using Cons.IH by blast
      then show ?thesis by simp
    qed
  qed
qed

lemma occurs_suffix_take:
  assumes "p \<noteq> []"
  shows "(\<exists>a b. t = a @ p @ b) \<longleftrightarrow> (\<exists>i<length t. suffix p (take (Suc i) t))"
proof
  assume "\<exists>a b. t = a @ p @ b"
  then obtain a b where t: "t = a @ p @ b" by blast
  let ?i = "length a + length p - 1"
  have "?i < length t" using assms t by (cases p) auto
  moreover have "take (Suc ?i) t = a @ p" using assms t by (cases p) auto
  ultimately show "\<exists>i<length t. suffix p (take (Suc i) t)"
    by (metis suffixI)
next
  assume "\<exists>i<length t. suffix p (take (Suc i) t)"
  then obtain i a where "take (Suc i) t = a @ p" by (auto simp: suffix_def)
  then have "t = a @ p @ drop (Suc i) t"
    by (metis append_assoc append_take_drop_id)
  then show "\<exists>a b. t = a @ p @ b" by blast
qed

text \<open>
  What \<open>Matcher.__init__\<close> leaves in the automaton: every stored value \<open>(idx, pat)\<close>
  has \<open>patterns_list[idx]\<close> equal to its key, and the keys are the patterns but the
  empty one.
\<close>

lemma set_add_word: "set (add_word A k v) \<subseteq> insert (k, v) (set A)"
  by (auto simp: add_word_def)

lemma keys_add_word:
  "fst ` set (add_word A k v) = fst ` set A \<union> (if k = [] then {} else {k})"
  by (auto simp: add_word_def image_iff)

lemma build_entries:
  assumes "\<And>idx pat. (idx, pat) \<in> set es \<Longrightarrow> Q (pat, (idx, pat))"
    and "\<And>kv. kv \<in> set A \<Longrightarrow> Q kv"
    and "kv \<in> set (fold (\<lambda>(idx, pat) automaton. add_word automaton pat (idx, pat)) es A)"
  shows "Q kv"
  using assms
proof (induction es arbitrary: A)
  case Nil
  then show ?case by simp
next
  case (Cons e es)
  obtain idx pat where e: "e = (idx, pat)" by (cases e)
  have new: "Q (pat, (idx, pat))"
    using Cons.prems(1) [of idx pat] e by simp
  have step: "\<And>kv. kv \<in> set (add_word A pat (idx, pat)) \<Longrightarrow> Q kv"
  proof -
    fix kv
    assume "kv \<in> set (add_word A pat (idx, pat))"
    then have "kv = (pat, (idx, pat)) \<or> kv \<in> set A"
      using set_add_word [of A pat "(idx, pat)"] by blast
    then show "Q kv"
      using new Cons.prems(2) by blast
  qed
  have rest: "\<And>idx pat. (idx, pat) \<in> set es \<Longrightarrow> Q (pat, (idx, pat))"
    using Cons.prems(1) by simp
  have "kv \<in> set (fold (\<lambda>(idx, pat) automaton. add_word automaton pat (idx, pat)) es
                      (add_word A pat (idx, pat)))"
    using Cons.prems(3) by (simp add: e)
  then show ?case
    using Cons.IH [of "add_word A pat (idx, pat)"] rest step by blast
qed

lemma build_keys:
  "fst ` set (fold (\<lambda>(idx, pat) automaton. add_word automaton pat (idx, pat)) es A)
     = fst ` set A \<union> (snd ` set es - {[]})"
proof (induction es arbitrary: A)
  case Nil
  then show ?case by simp
next
  case (Cons e es)
  obtain idx pat where e: "e = (idx, pat)" by (cases e)
  show ?case
    by (auto simp: e Cons.IH keys_add_word)
qed

lemma Matcher_init_entries:
  assumes "aho (Matcher_init True ps) = Some A" and "kv \<in> set A"
  shows "fst (snd kv) < length ps \<and> ps ! fst (snd kv) = fst kv"
proof -
  have "A = fold (\<lambda>(idx, pat) automaton. add_word automaton pat (idx, pat)) (enumerate 0 ps) []"
    using assms(1) by (simp add: Matcher_init_def)
  then have "kv \<in> set (fold (\<lambda>(idx, pat) automaton. add_word automaton pat (idx, pat))
                          (enumerate 0 ps) [])"
    using assms(2) by simp
  then show ?thesis
  proof (rule build_entries [rotated 2])
    fix idx pat
    assume "(idx, pat) \<in> set (enumerate 0 ps)"
    then show "fst (snd (pat, (idx, pat))) < length ps
                 \<and> ps ! fst (snd (pat, (idx, pat))) = fst (pat, (idx, pat))"
      by (simp add: in_set_enumerate_eq)
  next
    fix kv :: "string \<times> (nat \<times> string)"
    assume "kv \<in> set []"
    then show "fst (snd kv) < length ps \<and> ps ! fst (snd kv) = fst kv"
      by simp
  qed
qed

lemma Matcher_init_keys:
  assumes "aho (Matcher_init True ps) = Some A"
  shows "fst ` set A = set ps - {[]}"
proof -
  have "snd ` set (enumerate 0 ps) = set ps"
    by (metis map_snd_enumerate set_map)
  moreover have
    "A = fold (\<lambda>(idx, pat) automaton. add_word automaton pat (idx, pat)) (enumerate 0 ps) []"
    using assms by (simp add: Matcher_init_def)
  ultimately show ?thesis
    by (simp add: build_keys)
qed

lemma set_automaton_iter:
  "set (automaton_iter A t) =
     {(i, v) | i k v. i < length t \<and> (k, v) \<in> set A \<and> suffix k (take (Suc i) t)}"
  by (force simp: automaton_iter_def image_iff)

lemma find_in_aho:
  assumes "[] \<notin> set ps"
  shows "find_in (Matcher_init True ps) t = Inr {p \<in> set ps. \<exists>a b. t = a @ p @ b}"
proof (cases "t = []")
  case True
  then show ?thesis using assms by (auto simp: find_in_def)
next
  case False
  obtain A where A: "aho (Matcher_init True ps) = Some A"
    by (simp add: Matcher_init_def)
  note ok = Matcher_init_entries [OF A] and keys = Matcher_init_keys [OF A]
  have m: "use_aho (Matcher_init True ps)" "patterns_list (Matcher_init True ps) = ps"
    by (simp_all add: Matcher_init_def)
  show ?thesis
  proof (cases "A = []")
    case True
    then have "set ps - {[]} = {}" using keys by simp
    then have "set ps = {}" using assms by auto
    then show ?thesis using False True A m
      by (simp add: find_in_def automaton_len_def)
  next
    case nonempty: False
    have all: "list_all (\<lambda>hit. fst (snd hit) < length ps) (automaton_iter A t)"
      using ok by (fastforce simp: list_all_iff set_automaton_iter)
    have "(\<lambda>hit. ps ! fst (snd hit)) ` set (automaton_iter A t)
            = {p \<in> set ps. \<exists>a b. t = a @ p @ b}" (is "?L = ?R")
    proof (rule set_eqI)
      fix p
      show "p \<in> ?L \<longleftrightarrow> p \<in> ?R"
      proof
        assume "p \<in> ?L"
        then obtain i k v where h: "i < length t" "(k, v) \<in> set A"
          "suffix k (take (Suc i) t)" "p = ps ! fst v"
          by (auto simp: set_automaton_iter)
        have "p = k" using ok [OF h(2)] h(4) by simp
        moreover have "k \<in> set ps - {[]}" using keys h(2) by force
        ultimately show "p \<in> ?R"
          using h(1,3) occurs_suffix_take [of p t] by auto
      next
        assume "p \<in> ?R"
        then have p: "p \<in> set ps" "p \<noteq> []" "\<exists>a b. t = a @ p @ b" using assms by auto
        then obtain i where i: "i < length t" "suffix p (take (Suc i) t)"
          using occurs_suffix_take [of p t] by auto
        from p(1,2) have "p \<in> fst ` set A" using keys by simp
        then obtain v where v: "(p, v) \<in> set A" by auto
        then have "ps ! fst v = p" using ok [of "(p, v)"] by simp
        moreover have "(i, v) \<in> set (automaton_iter A t)"
          using i v by (cases v) (auto simp: set_automaton_iter)
        ultimately show "p \<in> ?L" by force
      qed
    qed
    then show ?thesis using False nonempty all A m
      by (simp add: find_in_def automaton_len_def)
  qed
qed

lemma find_in_fallback:
  "find_in (Matcher_init False ps) t =
     Inr (if t = [] then {} else {p \<in> set ps. \<exists>a b. t = a @ p @ b})"
  by (auto simp: find_in_def Matcher_init_def str_in_iff)

text \<open>
  Claim C2. A pattern is a variant that \<open>normalize_variants\<close> returned, so it has at
  least six characters (\<open>normalize_variants_length\<close>); in particular no pattern is
  empty. For every list of non-empty patterns and every text, the matcher built with
  the automaton and the matcher built without it return the same set, and that set
  is: the patterns that occur as a substring of the text. Nothing is asked of the
  patterns beyond that: they may be substrings of one another, or occur twice in the
  list.
\<close>

theorem find_in_modes_agree:
  "[] \<notin> set ps \<Longrightarrow>
     find_in (Matcher_init True ps) t = find_in (Matcher_init False ps) t
     \<and> find_in (Matcher_init False ps) t = Inr {p \<in> set ps. \<exists>a b. t = a @ p @ b}"
  using find_in_aho [of ps t] find_in_fallback [of ps t] by auto

theorem find_in_modes_agree_witness:
  "[] \<notin> set [''example.com'', ''example.com/a'', ''zzz'']
   \<and> find_in (Matcher_init True [''example.com'', ''example.com/a'', ''zzz'']) ''see example.com/a/b''
       = find_in (Matcher_init False [''example.com'', ''example.com/a'', ''zzz'']) ''see example.com/a/b''
   \<and> find_in (Matcher_init False [''example.com'', ''example.com/a'', ''zzz'']) ''see example.com/a/b''
       = Inr {''example.com'', ''example.com/a''}"
proof -
  have h: "[] \<notin> set [''example.com'', ''example.com/a'', ''zzz'']"
    by simp
  have s: "str_in ''example.com'' ''see example.com/a/b''"
    "str_in ''example.com/a'' ''see example.com/a/b''"
    "\<not> str_in ''zzz'' ''see example.com/a/b''"
    by simp_all
  have v: "find_in (Matcher_init False [''example.com'', ''example.com/a'', ''zzz''])
             ''see example.com/a/b'' = Inr {''example.com'', ''example.com/a''}"
    using s by (auto simp: find_in_def Matcher_init_def simp del: str_in.simps)
  have e: "find_in (Matcher_init True [''example.com'', ''example.com/a'', ''zzz'']) ''see example.com/a/b''
       = find_in (Matcher_init False [''example.com'', ''example.com/a'', ''zzz'']) ''see example.com/a/b''"
    using find_in_modes_agree [OF h, of "''see example.com/a/b''"] by (rule conjunct1)
  show ?thesis
    by (intro conjI) (rule h, rule e, rule v)
qed

section \<open>Properties of sitemap discovery\<close>

lemma urlparse_abs_path:
  "\<exists>sch. urlparse env ''/sitemap.xml'' sch0 =
     Inr \<lparr>scheme = sch, netloc = [], path = ''/sitemap.xml'', params = [], query = [], fragment = []\<rparr>"
  "\<exists>sch. urlparse env ''/robots.txt'' sch0 =
     Inr \<lparr>scheme = sch, netloc = [], path = ''/robots.txt'', params = [], query = [], fragment = []\<rparr>"
  by (simp_all add: url_eval)

lemma urljoin_abs_path:
  assumes "urlparse env base [] = Inr b"
  shows "\<exists>d. urljoin env base ''/sitemap.xml'' = Inr d" "\<exists>r. urljoin env base ''/robots.txt'' = Inr r"
proof -
  obtain s1 where "urlparse env ''/sitemap.xml'' (scheme b) =
     Inr \<lparr>scheme = s1, netloc = [], path = ''/sitemap.xml'', params = [], query = [], fragment = []\<rparr>"
    using urlparse_abs_path(1) by blast
  then show "\<exists>d. urljoin env base ''/sitemap.xml'' = Inr d"
    using assms by (simp add: urljoin_def Let_def)
  obtain s2 where "urlparse env ''/robots.txt'' (scheme b) =
     Inr \<lparr>scheme = s2, netloc = [], path = ''/robots.txt'', params = [], query = [], fragment = []\<rparr>"
    using urlparse_abs_path(2) by blast
  then show "\<exists>r. urljoin env base ''/robots.txt'' = Inr r"
    using assms by (simp add: urljoin_def Let_def)
qed

lemma robots_sitemap_lines_iff:
  "sm \<in> set (robots_sitemap_lines txt) \<longleftrightarrow>
     (\<exists>line\<in>set (splitlines txt). startswith (str_lower line) ''sitemap:''
        \<and> sm = str_strip (snd (split1 line (CHR '':''))) \<and> sm \<noteq> [])"
  by (auto simp: robots_sitemap_lines_def Let_def)

lemma candidates_of_base_mono:
  "candidates_of_base env net n base S \<Longrightarrow> S \<subseteq> T \<Longrightarrow> candidates_of_base env net n base T"
  unfolding candidates_of_base_def by blast

lemma candidates_of_base_step:
  assumes r: "urljoin env base ''/robots.txt'' = Inr r"
    and d: "urljoin env base ''/sitemap.xml'' = Inr d"
    and f: "fetch_text_bytes env (net clock r) r = (status, raw, hdrs)"
  shows "candidates_of_base env net clock base
           (insert d (if status = 200 \<and> raw \<noteq> []
                      then S \<union> set (robots_sitemap_lines (decode_text env raw)) else S))"
  unfolding candidates_of_base_def
proof (intro conjI allI impI)
  fix d'
  assume "urljoin env base ''/sitemap.xml'' = Inr d'"
  then have "d' = d" using d by simp
  then show "d' \<in> insert d (if status = 200 \<and> raw \<noteq> []
                      then S \<union> set (robots_sitemap_lines (decode_text env raw)) else S)"
    by simp
next
  fix r' raw' hdrs' line
  assume a: "urljoin env base ''/robots.txt'' = Inr r'"
    "fetch_text_bytes env (net clock r') r' = (200, raw', hdrs')"
    "line \<in> set (splitlines (decode_text env raw'))"
    "startswith (str_lower line) ''sitemap:''"
    "str_strip (snd (split1 line (CHR '':''))) \<noteq> []"
  from a(1) have "r' = r" using r by simp
  with a(2) f have e: "status = 200" "raw = raw'" by simp_all
  have n: "raw' \<noteq> []"
    using a(3) by (auto simp: decode_text_def splitlines_def)
  have "str_strip (snd (split1 line (CHR '':''))) \<in> set (robots_sitemap_lines (decode_text env raw'))"
    unfolding robots_sitemap_lines_iff using a(3,4,5) by blast
  then show "str_strip (snd (split1 line (CHR '':'')))
               \<in> insert d (if status = 200 \<and> raw \<noteq> []
                      then S \<union> set (robots_sitemap_lines (decode_text env raw)) else S)"
    using e n by simp
qed

lemma discover_loop_result:
  assumes "\<And>base. base \<in> set bases \<Longrightarrow> \<exists>r. urljoin env base ''/robots.txt'' = Inr r"
    and "\<And>base. base \<in> set bases \<Longrightarrow> \<exists>d. urljoin env base ''/sitemap.xml'' = Inr d"
  shows "\<exists>urls. discover_loop env net bases clock S = Inr (urls, clock + length bases)
           \<and> S \<subseteq> urls
           \<and> (\<forall>i<length bases. candidates_of_base env net (clock + i) (bases ! i) urls)"
  using assms
proof (induction bases arbitrary: clock S)
  case Nil
  then show ?case by simp
next
  case (Cons base bases)
  obtain r where r: "urljoin env base ''/robots.txt'' = Inr r"
    using Cons.prems(1) [of base] by auto
  obtain d where d: "urljoin env base ''/sitemap.xml'' = Inr d"
    using Cons.prems(2) [of base] by auto
  obtain status raw hdrs where f: "fetch_text_bytes env (net clock r) r = (status, raw, hdrs)"
    by (cases "fetch_text_bytes env (net clock r) r") auto
  define S1 where "S1 = insert d (if status = 200 \<and> raw \<noteq> []
                         then S \<union> set (robots_sitemap_lines (decode_text env raw)) else S)"
  have step: "discover_loop env net (base # bases) clock S
                = discover_loop env net bases (Suc clock) S1"
    by (simp add: r d f S1_def)
  have c0: "candidates_of_base env net clock base S1"
    unfolding S1_def using r d f by (rule candidates_of_base_step [where net = net and clock = clock])
  have SS1: "S \<subseteq> S1" by (auto simp: S1_def)
  have "\<exists>urls. discover_loop env net bases (Suc clock) S1 = Inr (urls, Suc clock + length bases)
           \<and> S1 \<subseteq> urls
           \<and> (\<forall>i<length bases. candidates_of_base env net (Suc clock + i) (bases ! i) urls)"
    by (rule Cons.IH) (use Cons.prems in auto)
  then obtain urls where u: "discover_loop env net bases (Suc clock) S1
                          = Inr (urls, Suc clock + length bases)"
    and sub: "S1 \<subseteq> urls"
    and rest: "\<And>i. i < length bases \<Longrightarrow> candidates_of_base env net (Suc clock + i) (bases ! i) urls"
    by blast
  have all: "\<forall>i<length (base # bases). candidates_of_base env net (clock + i) ((base # bases) ! i) urls"
  proof (intro allI impI)
    fix i
    assume i: "i < length (base # bases)"
    show "candidates_of_base env net (clock + i) ((base # bases) ! i) urls"
    proof (cases i)
      case 0
      then show ?thesis using candidates_of_base_mono [OF c0 sub] by simp
    next
      case (Suc j)
      then have "j < length bases" using i by simp
      then show ?thesis using rest [of j] Suc by simp
    qed
  qed
  have "S \<subseteq> urls" using SS1 sub by blast
  then show ?case
    using step u all by simp
qed

lemma urlparse_example_base:
  "urlparse env ''https://example.com'' [] =
     Inr \<lparr>scheme = ''https'', netloc = ''example.com'', path = [], params = [], query = [],
          fragment = []\<rparr>"
  by (simp add: url_eval)

lemma urljoin_example:
  "urljoin env ''https://example.com'' ''/robots.txt'' = Inr ''https://example.com/robots.txt''"
  "urljoin env ''https://example.com'' ''/sitemap.xml'' = Inr ''https://example.com/sitemap.xml''"
proof -
  have a: "urlparse env ''/robots.txt'' ''https'' =
     Inr \<lparr>scheme = ''https'', netloc = [], path = ''/robots.txt'', params = [], query = [], fragment = []\<rparr>"
    "urlparse env ''/sitemap.xml'' ''https'' =
     Inr \<lparr>scheme = ''https'', netloc = [], path = ''/sitemap.xml'', params = [], query = [], fragment = []\<rparr>"
    by (simp_all add: url_eval)
  have s: "str_split ''/robots.txt'' (CHR ''/'') = [[], ''robots.txt'']"
    "str_split ''/sitemap.xml'' (CHR ''/'') = [[], ''sitemap.xml'']"
    by (simp_all add: str_split_def)
  show "urljoin env ''https://example.com'' ''/robots.txt'' = Inr ''https://example.com/robots.txt''"
    by (simp add: urljoin_def urlparse_example_base a s uses_relative_def uses_netloc_def
          urlunparse_def urlunsplit_def str_join_def)
  show "urljoin env ''https://example.com'' ''/sitemap.xml'' = Inr ''https://example.com/sitemap.xml''"
    by (simp add: urljoin_def urlparse_example_base a s uses_relative_def uses_netloc_def
          urlunparse_def urlunsplit_def str_join_def)
qed

lemma robots_lines_example:
  "robots_sitemap_lines ''User-agent: *\<newline>SiteMap: https://example.com/news.xml\<newline>''
     = [''https://example.com/news.xml'']"
proof -
  have l: "splitlines ''User-agent: *\<newline>SiteMap: https://example.com/news.xml\<newline>''
             = [''User-agent: *'', ''SiteMap: https://example.com/news.xml'']"
    by (simp add: splitlines_def is_linebreak_def)
  have lo: "str_lower ''User-agent: *'' = ''user-agent: *''"
    "str_lower ''SiteMap: https://example.com/news.xml'' = ''sitemap: https://example.com/news.xml''"
    by code_simp+
  show ?thesis
    by (simp add: robots_sitemap_lines_def l lo startswith_def split1_def str_strip_def
          str_lstrip_def str_rstrip_def isspace_def)
qed

lemma robots_url_lower:
  "str_lower ''https://example.com/robots.txt'' = ''https://example.com/robots.txt''"
  by code_simp

lemma discover_example:
  "discover_sitemap_urls library0 network0 0 ''example.com''
     = Inr ({''https://example.com/sitemap.xml'', ''https://example.com/news.xml''}, 1)"
  by (simp add: discover_sitemap_urls_def possible_base_urls_def SCHEMES_def urljoin_example
        network0_def fetch_text_bytes_def decode_text_def library0_def robots_lines_example
        endswith_def robots_url_lower suffix_to_prefix Let_def)

text \<open>
  \<open>urlparse\<close> refuses a URL only for its network location: for an unmatched square
  bracket, for a bracketed host that is no IP address, or for a character that
  normalizes to a delimiter. The base URL of a domain made of ASCII characters without
  square brackets is accepted.
\<close>

lemma urlparse_base_url:
  assumes "CHR ''['' \<notin> set domain" "CHR '']'' \<notin> set domain" "list_all isascii domain"
  shows "\<exists>p. urlparse env (''https://'' @ domain) [] = Inr p"
proof -
  define d where "d = filter (\<lambda>c. c \<noteq> CHR 0x09 \<and> c \<noteq> CHR 0x0D \<and> c \<noteq> CHR 0x0A) domain"
  obtain nl rest where sp: "splitnetloc (CHR ''/'' # CHR ''/'' # d) 2 = (nl, rest)"
    by (cases "splitnetloc (CHR ''/'' # CHR ''/'' # d) 2") auto
  have "set (fst (splitnetloc (CHR ''/'' # CHR ''/'' # d) 2)) \<subseteq> set d"
    unfolding splitnetloc_def Let_def fst_conv by (simp add: set_take_subset)
  then have "set nl \<subseteq> set d"
    by (simp add: sp)
  then have sub: "set nl \<subseteq> set domain"
    by (auto simp: d_def)
  have nb: "CHR ''['' \<notin> set nl" "CHR '']'' \<notin> set nl" "list_all isascii nl"
    using sub assms by (auto simp: list_all_iff)
  have "\<exists>r. urlsplit env (''https://'' @ domain) [] = Inr r"
    by (simp add: urlsplit_def c0_control_or_space_def str_find_def isascii_def
        ascii_isalpha_def scheme_chars_def Let_def d_def [symmetric] sp nb split: prod.splits)
  then show ?thesis
    by (auto simp: urlparse_def Let_def split: prod.splits)
qed

lemma possible_base_urls_accepted:
  assumes "CHR ''['' \<notin> set domain" "CHR '']'' \<notin> set domain" "list_all isascii domain"
  shows "list_all (\<lambda>base. \<exists>p. urlparse env base [] = Inr p) (possible_base_urls domain)"
  using urlparse_base_url [OF assms] by (simp add: possible_base_urls_def SCHEMES_def)

lemma robots_lines_indented:
  "robots_sitemap_lines '' Sitemap: https://example.com/news.xml\<newline>Sitemap:\<newline>'' = []"
proof -
  have l: "splitlines '' Sitemap: https://example.com/news.xml\<newline>Sitemap:\<newline>''
             = ['' Sitemap: https://example.com/news.xml'', ''Sitemap:'']"
    by (simp add: splitlines_def is_linebreak_def)
  have lo: "str_lower '' Sitemap: https://example.com/news.xml'' = '' sitemap: https://example.com/news.xml''"
    "str_lower ''Sitemap:'' = ''sitemap:''"
    by code_simp+
  show ?thesis
    by (simp add: robots_sitemap_lines_def l lo startswith_def split1_def str_strip_def
          str_lstrip_def str_rstrip_def isspace_def)
qed

text \<open>
  Claim C8, as stated, fails on three robots.txt responses that a server can send.
  The keyword is looked for at the very start of the line, so the sitemap of a line
  that starts with a blank is not among the candidates; a \<open>Sitemap:\<close> line without a
  value adds nothing, not even the empty string; and the body of a response whose
  status is not 200 is not read at all. In each case discovery returns the default
  candidate alone, after one request.
\<close>

theorem discover_sitemap_urls_skipped_lines_counterexample:
  "discover_sitemap_urls library0 network_indented 0 ''example.com''
     = Inr ({''https://example.com/sitemap.xml''}, 1)
   \<and> discover_sitemap_urls library0 network_not_found 0 ''example.com''
     = Inr ({''https://example.com/sitemap.xml''}, 1)"
proof -
  have a: "discover_sitemap_urls library0 network_indented 0 ''example.com''
             = Inr ({''https://example.com/sitemap.xml''}, 1)"
    by (simp add: discover_sitemap_urls_def possible_base_urls_def SCHEMES_def urljoin_example
          network_indented_def fetch_text_bytes_def decode_text_def library0_def
          robots_lines_indented endswith_def robots_url_lower suffix_to_prefix Let_def)
  have b: "discover_sitemap_urls library0 network_not_found 0 ''example.com''
             = Inr ({''https://example.com/sitemap.xml''}, 1)"
    by (simp add: discover_sitemap_urls_def possible_base_urls_def SCHEMES_def urljoin_example
          network_not_found_def fetch_text_bytes_def Let_def)
  show ?thesis
    using a b by (rule conjI)
qed

text \<open>
  Claim C8, amended. A domain is a host name, and what is asked of it is that
  \<open>urlparse\<close> accepts its base URLs \<open>scheme://domain\<close>, which it does for every string
  of ASCII characters without a square bracket (\<open>urlparse_base_url\<close>). For every such
  domain and every network, sitemap discovery returns, having made one request for
  each configured scheme, and the set it returns holds for each scheme the default
  \<open>/sitemap.xml\<close> URL of its base and, when the robots.txt came back with status 200,
  the value of every line of the body that starts with \<open>sitemap:\<close> in any letter case
  and has a value. A robots.txt that could not be fetched takes nothing away from the
  defaults.
\<close>

theorem discover_sitemap_urls_candidates:
  assumes "list_all (\<lambda>base. \<exists>p. urlparse env base [] = Inr p) (possible_base_urls domain)"
  shows "\<exists>urls. discover_sitemap_urls env net clock domain
                  = Inr (urls, clock + length (possible_base_urls domain))
           \<and> (\<forall>i<length (possible_base_urls domain).
                 candidates_of_base env net (clock + i) (possible_base_urls domain ! i) urls)"
proof -
  have "\<exists>urls. discover_loop env net (possible_base_urls domain) clock {}
                  = Inr (urls, clock + length (possible_base_urls domain))
           \<and> {} \<subseteq> urls
           \<and> (\<forall>i<length (possible_base_urls domain).
                 candidates_of_base env net (clock + i) (possible_base_urls domain ! i) urls)"
  proof (rule discover_loop_result)
    fix base
    assume "base \<in> set (possible_base_urls domain)"
    then obtain p where "urlparse env base [] = Inr p"
      using assms by (auto simp: list_all_iff)
    then show "\<exists>r. urljoin env base ''/robots.txt'' = Inr r"
      by (rule urljoin_abs_path(2))
  next
    fix base
    assume "base \<in> set (possible_base_urls domain)"
    then obtain p where "urlparse env base [] = Inr p"
      using assms by (auto simp: list_all_iff)
    then show "\<exists>d. urljoin env base ''/sitemap.xml'' = Inr d"
      by (rule urljoin_abs_path(1))
  qed
  then show ?thesis
    by (simp add: discover_sitemap_urls_def)
qed

theorem discover_sitemap_urls_candidates_witness:
  "list_all (\<lambda>base. \<exists>p. urlparse library0 base [] = Inr p) (possible_base_urls ''example.com'')
   \<and> discover_sitemap_urls library0 network0 0 ''example.com''
       = Inr ({''https://example.com/sitemap.xml'', ''https://example.com/news.xml''}, 1)
   \<and> candidates_of_base library0 network0 0 ''https://example.com''
         {''https://example.com/sitemap.xml'', ''https://example.com/news.xml''}"
proof -
  have b: "possible_base_urls ''example.com'' = [''https://example.com'']"
    by (simp add: possible_base_urls_def SCHEMES_def)
  have h: "list_all (\<lambda>base. \<exists>p. urlparse library0 base [] = Inr p)
             (possible_base_urls ''example.com'')"
    by (simp add: b urlparse_example_base)
  obtain urls where u: "discover_sitemap_urls library0 network0 0 ''example.com''
                          = Inr (urls, 0 + length (possible_base_urls ''example.com''))"
    and c: "\<forall>i<length (possible_base_urls ''example.com'').
              candidates_of_base library0 network0 (0 + i) (possible_base_urls ''example.com'' ! i) urls"
    using discover_sitemap_urls_candidates [OF h, of network0 0] by blast
  have "urls = {''https://example.com/sitemap.xml'', ''https://example.com/news.xml''}"
    using u unfolding discover_example by simp
  moreover have "candidates_of_base library0 network0 0 ''https://example.com'' urls"
    using c unfolding b by simp
  ultimately show ?thesis
    using h discover_example by blast
qed

section \<open>Properties of sitemap documents\<close>

text \<open>An occurrence of a text without whitespace survives \<open>strip\<close>, also under \<open>lower\<close>.\<close>

lemma isspace_lower_char: "isspace c \<Longrightarrow> lower_char c = c"
proof -
  assume s: "isspace c"
  have "\<forall>u\<in>set cased_upper. \<not> isspace u"
    by (simp add: cased_upper_def isspace_def)
  then have "c \<notin> set cased_upper" using s by blast
  then have "map_of (zip cased_upper cased_lower) c = None"
    by (simp add: map_of_eq_None_iff cased_upper_def cased_lower_def)
  then show ?thesis by (simp add: lower_char_def)
qed

lemma lstrip_keeps:
  assumes "p \<noteq> []" "\<not> isspace (hd p)"
  shows "\<exists>a'. dropWhile isspace (a @ p @ b) = a' @ p @ b"
proof (induction a)
  case Nil
  have "dropWhile isspace (p @ b) = p @ b"
    using assms by (cases p) auto
  then show ?case by (metis append_Nil)
next
  case (Cons x a)
  then show ?case
    by (cases "isspace x") (auto intro: exI [of _ "x # a"])
qed

lemma strip_keeps:
  assumes "p \<noteq> []" "\<not> isspace (hd p)" "\<not> isspace (last p)"
  shows "\<exists>a' b'. str_strip (a @ p @ b) = a' @ p @ b'"
proof -
  obtain a' where l: "dropWhile isspace (a @ p @ b) = a' @ p @ b"
    using lstrip_keeps [OF assms(1,2)] by blast
  have "rev p \<noteq> []" "\<not> isspace (hd (rev p))"
    using assms by (simp_all add: hd_rev)
  then obtain c where "dropWhile isspace (rev b @ rev p @ rev a') = c @ rev p @ rev a'"
    using lstrip_keeps [of "rev p" "rev b" "rev a'"] by blast
  then have "rev (dropWhile isspace (rev (a' @ p @ b))) = a' @ p @ rev c"
    by (simp add: rev_swap [symmetric])
  then show ?thesis
    unfolding str_strip_def str_lstrip_def str_rstrip_def l by blast
qed

lemma lower_occurrence_strip:
  assumes "p \<noteq> []" "list_all (\<lambda>c. \<not> isspace c) p" "\<exists>a b. str_lower t = a @ p @ b"
  shows "\<exists>a b. str_lower (str_strip t) = a @ p @ b"
proof -
  obtain a b where ab: "map lower_char t = a @ p @ b"
    using assms(3) by (auto simp: str_lower_def)
  define a0 where "a0 = take (length a) t"
  define p0 where "p0 = take (length p) (drop (length a) t)"
  define b0 where "b0 = drop (length p) (drop (length a) t)"
  have t: "t = a0 @ p0 @ b0"
    unfolding a0_def p0_def b0_def by (simp only: append_take_drop_id)
  have "map lower_char p0 = take (length p) (drop (length a) (map lower_char t))"
    by (simp add: p0_def take_map drop_map)
  then have p0: "map lower_char p0 = p"
    by (simp add: ab)
  have ne: "p0 \<noteq> []" using p0 assms(1) by auto
  have nospace: "\<And>c. c \<in> set p0 \<Longrightarrow> \<not> isspace c"
  proof
    fix c assume c: "c \<in> set p0" "isspace c"
    then have "lower_char c = c" by (rule_tac isspace_lower_char)
    then have "c \<in> set p" using c(1) p0 by force
    then show False using assms(2) c(2) by (auto simp: list_all_iff)
  qed
  have "\<not> isspace (hd p0)" "\<not> isspace (last p0)"
    using ne nospace by simp_all
  then obtain a' b' where "str_strip (a0 @ p0 @ b0) = a' @ p0 @ b'"
    using strip_keeps [OF ne] by blast
  then have "str_lower (str_strip t) = map lower_char a' @ p @ map lower_char b'"
    using t p0 by (simp add: str_lower_def)
  then show ?thesis by blast
qed

lemma lower_suffix_strip:
  assumes "p \<noteq> []" "list_all (\<lambda>c. \<not> isspace c) p" "suffix p (str_lower t)"
  shows "suffix p (str_lower (str_strip t))"
proof -
  obtain a where ab: "map lower_char t = a @ p"
    using assms(3) by (auto simp: str_lower_def suffix_def)
  define a0 where "a0 = take (length a) t"
  define p0 where "p0 = drop (length a) t"
  have t: "t = a0 @ p0"
    by (simp add: a0_def p0_def)
  have "map lower_char p0 = drop (length a) (map lower_char t)"
    by (simp add: p0_def drop_map)
  then have p0: "map lower_char p0 = p"
    by (simp add: ab)
  have ne: "p0 \<noteq> []" using p0 assms(1) by auto
  have nospace: "\<And>c. c \<in> set p0 \<Longrightarrow> \<not> isspace c"
  proof
    fix c assume c: "c \<in> set p0" "isspace c"
    then have "lower_char c = c" by (rule_tac isspace_lower_char)
    then have "c \<in> set p" using c(1) p0 by force
    then show False using assms(2) c(2) by (auto simp: list_all_iff)
  qed
  have h: "\<not> isspace (hd p0)" and l: "\<not> isspace (last p0)"
    using ne nospace by simp_all
  obtain a' where a': "dropWhile isspace (a0 @ p0 @ []) = a' @ p0 @ []"
    using lstrip_keeps [OF ne h] by blast
  have "dropWhile isspace (rev (a' @ p0)) = rev (a' @ p0)"
    using ne l by (cases "rev p0") (auto simp: last_rev [symmetric] hd_rev)
  then have "str_strip t = a' @ p0"
    using a' by (simp add: str_strip_def str_lstrip_def str_rstrip_def t)
  then show ?thesis
    using p0 by (simp add: str_lower_def suffix_def)
qed

lemma is_sitemap_like_cases:
  "is_sitemap_like env u \<longleftrightarrow>
     endswith (str_lower u) ''.xml'' \<or> endswith (str_lower u) ''.xml.gz''
     \<or> str_in ''sitemap'' (str_lower u)
     \<or> (\<exists>p. urlparse env u [] = Inr p
            \<and> list_ex (\<lambda>k. str_in ''sitemap'' (str_lower k)) (parse_qs_keys env (query p)))"
  by (auto simp: is_sitemap_like_def Let_def split: sum.splits)

lemma parse_sitemap_xml_urlset:
  assumes "str_strip xml_text \<noteq> []"
    and "ET_fromstring env xml_text = Some root"
    and "str_lower (if CHR ''}'' \<in> set (tag root) then snd (split1 (tag root) (CHR ''}''))
                    else tag root) \<noteq> ''sitemapindex''"
    and "loc \<in> set (findall_any root ''url'' ''loc'')"
    and "text_of loc = Some t" and "t \<noteq> []"
  shows "is_sitemap_like env (str_strip t) \<Longrightarrow>
           str_strip t \<in> set (fst (parse_sitemap_xml env xml_text))"
    and "is_sitemap_like env (str_strip t) \<Longrightarrow>
           str_strip t \<notin> set (snd (parse_sitemap_xml env xml_text))"
    and "\<not> is_sitemap_like env (str_strip t) \<Longrightarrow>
           str_strip t \<in> set (snd (parse_sitemap_xml env xml_text))"
proof -
  define urls where "urls = concat (map (\<lambda>loc. case text_of loc of
                                                    None \<Rightarrow> []
                                                  | Some t \<Rightarrow> if t = [] then [] else [str_strip t])
                                         (findall_any root ''url'' ''loc''))"
  have r: "parse_sitemap_xml env xml_text
             = (filter (is_sitemap_like env) urls, filter (\<lambda>url. \<not> is_sitemap_like env url) urls)"
    using assms(1,2,3) by (simp add: parse_sitemap_xml_def Let_def urls_def)
  have m: "str_strip t \<in> set urls"
    unfolding urls_def using assms(4,5,6) by (force simp: image_iff)
  show "is_sitemap_like env (str_strip t) \<Longrightarrow>
           str_strip t \<in> set (fst (parse_sitemap_xml env xml_text))"
    using m by (simp add: r)
  show "is_sitemap_like env (str_strip t) \<Longrightarrow>
           str_strip t \<notin> set (snd (parse_sitemap_xml env xml_text))"
    by (simp add: r)
  show "\<not> is_sitemap_like env (str_strip t) \<Longrightarrow>
           str_strip t \<in> set (snd (parse_sitemap_xml env xml_text))"
    using m by (simp add: r)
qed

lemma loc_value_sitemap_like:
  assumes "(\<exists>a b. str_lower u = a @ ''sitemap'' @ b)
           \<or> endswith (str_lower u) ''.xml'' \<or> endswith (str_lower u) ''.xml.gz''
           \<or> (\<exists>p. urlparse env u [] = Inr p
                  \<and> (\<exists>k\<in>set (parse_qs_keys env (query p)). \<exists>a b. str_lower k = a @ ''sitemap'' @ b))"
  shows "is_sitemap_like env u"
proof -
  from assms consider
      (a) "\<exists>a b. str_lower u = a @ ''sitemap'' @ b"
    | (b) "endswith (str_lower u) ''.xml'' \<or> endswith (str_lower u) ''.xml.gz''"
    | (d) "\<exists>p. urlparse env u [] = Inr p
                  \<and> (\<exists>k\<in>set (parse_qs_keys env (query p)). \<exists>a b. str_lower k = a @ ''sitemap'' @ b)"
    by blast
  then show ?thesis
  proof cases
    case a
    then have "str_in ''sitemap'' (str_lower u)"
      unfolding str_in_iff .
    then show ?thesis unfolding is_sitemap_like_cases by blast
  next
    case b
    then show ?thesis unfolding is_sitemap_like_cases by blast
  next
    case d
    then obtain p k where p: "urlparse env u [] = Inr p"
      and k: "k \<in> set (parse_qs_keys env (query p))" "str_in ''sitemap'' (str_lower k)"
      unfolding str_in_iff by blast
    then have "list_ex (\<lambda>k. str_in ''sitemap'' (str_lower k)) (parse_qs_keys env (query p))"
      unfolding list_ex_iff by blast
    with p show ?thesis unfolding is_sitemap_like_cases by blast
  qed
qed

text \<open>
  The text of a \<open>loc\<close> element is stripped before it is classified. What the text
  contains or ends with, whitespace apart, the stripped value does too.
\<close>

lemma loc_text_sitemap_like:
  assumes "(\<exists>a b. str_lower t = a @ ''sitemap'' @ b)
           \<or> endswith (str_lower t) ''.xml'' \<or> endswith (str_lower t) ''.xml.gz''"
  shows "is_sitemap_like env (str_strip t)"
proof -
  have ns: "list_all (\<lambda>c. \<not> isspace c) ''sitemap''" "list_all (\<lambda>c. \<not> isspace c) ''.xml''"
    "list_all (\<lambda>c. \<not> isspace c) ''.xml.gz''"
    by (simp_all add: isspace_def)
  from assms consider
      (a) "\<exists>a b. str_lower t = a @ ''sitemap'' @ b"
    | (b) "endswith (str_lower t) ''.xml''"
    | (c) "endswith (str_lower t) ''.xml.gz''"
    by blast
  then show ?thesis
  proof cases
    case a
    then have "\<exists>a b. str_lower (str_strip t) = a @ ''sitemap'' @ b"
      using lower_occurrence_strip [OF _ ns(1)] by blast
    then show ?thesis by (rule loc_value_sitemap_like [OF disjI1])
  next
    case b
    then have "endswith (str_lower (str_strip t)) ''.xml''"
      using lower_suffix_strip [OF _ ns(2)] by (simp add: endswith_def)
    then show ?thesis unfolding is_sitemap_like_cases by blast
  next
    case c
    then have "endswith (str_lower (str_strip t)) ''.xml.gz''"
      using lower_suffix_strip [OF _ ns(3)] by (simp add: endswith_def)
    then show ?thesis unfolding is_sitemap_like_cases by blast
  qed
qed

text \<open>
  Claim C6. For every document that parses to a root whose local name is not
  \<open>sitemapindex\<close> in any case, and every \<open>url/loc\<close> element of it with a text: the
  value of the element is its text stripped of surrounding whitespace, and when the
  lowercased value contains \<open>sitemap\<close> anywhere, or ends with \<open>.xml\<close> or \<open>.xml.gz\<close>
  (a value that ends so as it stands does so lowercased), or the value parses as a
  URL with a query parameter, as \<open>parse_qs\<close> reads it, whose lowercased key contains
  \<open>sitemap\<close>, then \<open>parse_sitemap_xml\<close> returns the value among the nested sitemap
  URLs and not among the page URLs.
\<close>

theorem parse_sitemap_xml_reclassifies:
  assumes "str_strip xml_text \<noteq> []"
    and "ET_fromstring env xml_text = Some root"
    and "str_lower (if CHR ''}'' \<in> set (tag root) then snd (split1 (tag root) (CHR ''}''))
                    else tag root) \<noteq> ''sitemapindex''"
    and "loc \<in> set (findall_any root ''url'' ''loc'')"
    and "text_of loc = Some t" and "t \<noteq> []"
    and "(\<exists>a b. str_lower (str_strip t) = a @ ''sitemap'' @ b)
         \<or> endswith (str_lower (str_strip t)) ''.xml''
         \<or> endswith (str_lower (str_strip t)) ''.xml.gz''
         \<or> (\<exists>p. urlparse env (str_strip t) [] = Inr p
                \<and> (\<exists>k\<in>set (parse_qs_keys env (query p)). \<exists>a b. str_lower k = a @ ''sitemap'' @ b))"
  shows "str_strip t \<in> set (fst (parse_sitemap_xml env xml_text))
         \<and> str_strip t \<notin> set (snd (parse_sitemap_xml env xml_text))"
  using parse_sitemap_xml_urlset(1,2) [OF assms(1-6)] loc_value_sitemap_like [OF assms(7)]
  by blast

theorem parse_sitemap_xml_reclassifies_witness:
  "str_strip ''<urlset>'' \<noteq> []
   \<and> ET_fromstring library1 ''<urlset>'' = Some urlset_doc
   \<and> str_lower (if CHR ''}'' \<in> set (tag urlset_doc) then snd (split1 (tag urlset_doc) (CHR ''}''))
                 else tag urlset_doc) \<noteq> ''sitemapindex''
   \<and> Element ''{ns}loc'' (Some ''https://a.io/Feed.XML\<newline>'') []
         \<in> set (findall_any urlset_doc ''url'' ''loc'')
   \<and> str_strip ''https://a.io/Feed.XML\<newline>'' = ''https://a.io/Feed.XML''
   \<and> endswith (str_lower ''https://a.io/Feed.XML'') ''.xml''
   \<and> ''https://a.io/Feed.XML'' \<in> set (fst (parse_sitemap_xml library1 ''<urlset>''))
   \<and> ''https://a.io/Feed.XML'' \<notin> set (snd (parse_sitemap_xml library1 ''<urlset>''))"
proof -
  have h1: "str_strip ''<urlset>'' \<noteq> []"
    by (simp add: str_strip_def str_lstrip_def str_rstrip_def isspace_def)
  have h2: "ET_fromstring library1 ''<urlset>'' = Some urlset_doc"
    by (simp add: library1_def)
  have lo: "str_lower ''urlset'' = ''urlset''"
    by code_simp
  have h3: "str_lower (if CHR ''}'' \<in> set (tag urlset_doc)
                       then snd (split1 (tag urlset_doc) (CHR ''}'')) else tag urlset_doc)
              \<noteq> ''sitemapindex''"
    by (simp add: urlset_doc_def split1_def lo)
  have h4: "Element ''{ns}loc'' (Some ''https://a.io/Feed.XML\<newline>'') []
              \<in> set (findall_any urlset_doc ''url'' ''loc'')"
    by (simp add: findall_any_def urlset_doc_def tag_is_def endswith_def suffix_to_prefix)
  have h5: "text_of (Element ''{ns}loc'' (Some ''https://a.io/Feed.XML\<newline>'') [])
              = Some ''https://a.io/Feed.XML\<newline>''"
    by simp
  have h6: "''https://a.io/Feed.XML\<newline>'' \<noteq> []"
    by simp
  have s: "str_strip ''https://a.io/Feed.XML\<newline>'' = ''https://a.io/Feed.XML''"
    by (simp add: str_strip_def str_lstrip_def str_rstrip_def isspace_def)
  have e: "str_lower ''https://a.io/Feed.XML'' = ''https://a.io/feed.xml''"
    by code_simp
  have x: "endswith (str_lower ''https://a.io/Feed.XML'') ''.xml''"
    unfolding e by (simp add: endswith_def suffix_to_prefix)
  then have h7: "(\<exists>a b. str_lower (str_strip ''https://a.io/Feed.XML\<newline>'') = a @ ''sitemap'' @ b)
         \<or> endswith (str_lower (str_strip ''https://a.io/Feed.XML\<newline>'')) ''.xml''
         \<or> endswith (str_lower (str_strip ''https://a.io/Feed.XML\<newline>'')) ''.xml.gz''
         \<or> (\<exists>p. urlparse library1 (str_strip ''https://a.io/Feed.XML\<newline>'') [] = Inr p
                \<and> (\<exists>k\<in>set (parse_qs_keys library1 (query p)). \<exists>a b. str_lower k = a @ ''sitemap'' @ b))"
    unfolding s by blast
  show ?thesis
    using parse_sitemap_xml_reclassifies [OF h1 h2 h3 h4 h5 h6 h7] h1 h2 h3 h4 x
    unfolding s by blast
qed

section \<open>Properties of the sitemap traversal\<close>

text \<open>
  The page loop never raises: \<open>is_binary_url\<close> and \<open>urldefrag\<close> are reached only for
  an URL that \<open>urlparse\<close> has accepted in \<open>same_domain\<close>. It never takes the set
  past \<open>MAX_PAGES\<close>.
\<close>

lemma collect_pages_total:
  "\<exists>pgs'. collect_pages cfg env domains pgs us = Inr pgs'"
proof (induction us arbitrary: pgs)
  case Nil
  then show ?case by simp
next
  case (Cons u us)
  show ?case
  proof (cases "same_domain env u domains")
    case False
    then show ?thesis using Cons.IH by simp
  next
    case True
    then obtain p where p: "urlparse env u [] = Inr p"
      by (auto simp: same_domain_def split: sum.splits)
    then obtain b where b: "is_binary_url env u = Inr b"
      by (simp add: is_binary_url_def)
    have "\<exists>d f. urldefrag env u = Inr (d, f)"
      using p by (simp add: urldefrag_def)
    then obtain d f where d: "urldefrag env u = Inr (d, f)"
      by blast
    show ?thesis
      using True b d Cons.IH [of pgs] Cons.IH [of "insert d pgs"] by (auto simp: Let_def)
  qed
qed

lemma collect_pages_bound:
  assumes "finite pgs" "int (card pgs) < MAX_PAGES cfg"
    and "collect_pages cfg env domains pgs us = Inr pgs'"
  shows "finite pgs' \<and> int (card pgs') \<le> MAX_PAGES cfg \<and> pgs \<subseteq> pgs'"
  using assms
proof (induction us arbitrary: pgs)
  case Nil
  then show ?case by simp
next
  case (Cons u us)
  show ?case
  proof (cases "same_domain env u domains")
    case False
    then show ?thesis using Cons by simp
  next
    case True
    show ?thesis
    proof (cases "is_binary_url env u")
      case (Inl e)
      then show ?thesis using True Cons.prems by simp
    next
      case (Inr binary)
      show ?thesis
      proof (cases binary)
        case True
        then show ?thesis using \<open>same_domain env u domains\<close> Inr Cons by simp
      next
        case False
        show ?thesis
        proof (cases "urldefrag env u")
          case (Inl e)
          then show ?thesis
            using \<open>same_domain env u domains\<close> \<open>is_binary_url env u = Inr binary\<close> False Cons.prems
            by simp
        next
          case df: (Inr r)
          obtain d f where r: "r = (d, f)" by (cases r)
          have fin: "finite (insert d pgs)" using Cons.prems(1) by simp
          have le: "int (card (insert d pgs)) \<le> MAX_PAGES cfg"
            using Cons.prems(1,2) by (simp add: card_insert_if)
          show ?thesis
          proof (cases "MAX_PAGES cfg \<le> int (card (insert d pgs))")
            case True
            then have "pgs' = insert d pgs"
              using \<open>same_domain env u domains\<close> \<open>is_binary_url env u = Inr binary\<close> False df r
                Cons.prems(3) by (simp add: Let_def)
            then show ?thesis using fin le by auto
          next
            case lt: False
            then have "collect_pages cfg env domains (insert d pgs) us = Inr pgs'"
              using \<open>same_domain env u domains\<close> \<open>is_binary_url env u = Inr binary\<close> False df r
                Cons.prems(3) by (simp add: Let_def)
            then have "finite pgs' \<and> int (card pgs') \<le> MAX_PAGES cfg \<and> insert d pgs \<subseteq> pgs'"
              using Cons.IH [of "insert d pgs"] fin lt by simp
            then show ?thesis by auto
          qed
        qed
      qed
    qed
  qed
qed

text \<open>What one pass of the loop does to the state, and that it never raises.\<close>

lemma sitemap_step_cases:
  assumes "sitemap_step cfg env net domains st = Inr st'"
  obtains
    (seen) "last (to_process st) \<in> seen_sitemaps st"
      "to_process st' = butlast (to_process st)" "seen_sitemaps st' = seen_sitemaps st"
      "processed_count st' = processed_count st" "pages st' = pages st"
      "requests st' = requests st" "fetched st' = fetched st" "parsed st' = parsed st"
  | (skipped) "last (to_process st) \<notin> seen_sitemaps st"
      "to_process st' = butlast (to_process st)"
      "seen_sitemaps st' = insert (last (to_process st)) (seen_sitemaps st)"
      "processed_count st' = Suc (processed_count st)" "pages st' = pages st"
      "requests st' = Suc (requests st)" "fetched st' = fetched st @ [last (to_process st)]"
      "parsed st' = parsed st"
  | (parsed) nested url_pages where "last (to_process st) \<notin> seen_sitemaps st"
      "to_process st' = butlast (to_process st)
         @ filter (\<lambda>u. u \<notin> insert (last (to_process st)) (seen_sitemaps st)) nested"
      "seen_sitemaps st' = insert (last (to_process st)) (seen_sitemaps st)"
      "processed_count st' = Suc (processed_count st)"
      "collect_pages cfg env domains (pages st) url_pages = Inr (pages st')"
      "requests st' = Suc (requests st)" "fetched st' = fetched st @ [last (to_process st)]"
      "parsed st' = parsed st @ [last (to_process st)]"
proof (cases "last (to_process st) \<in> seen_sitemaps st")
  case True
  then have "st' = st\<lparr>to_process := butlast (to_process st)\<rparr>"
    using assms by (simp add: sitemap_step_def Let_def)
  then show ?thesis using True seen by simp
next
  case False
  obtain status raw headers where f:
    "fetch_text_bytes env (net (requests st) (last (to_process st))) (last (to_process st))
       = (status, raw, headers)"
    by (metis prod_cases3)
  show ?thesis
  proof (cases "status \<noteq> 200 \<or> raw = [] \<or> \<not> startswith (str_strip (decode_text env raw)) ''<''")
    case True
    then have "st' = st\<lparr>to_process := butlast (to_process st),
                 seen_sitemaps := insert (last (to_process st)) (seen_sitemaps st),
                 processed_count := Suc (processed_count st),
                 requests := Suc (requests st),
                 fetched := fetched st @ [last (to_process st)]\<rparr>"
      using assms False f by (auto simp: sitemap_step_def Let_def split: if_splits)
    then show ?thesis using False skipped by simp
  next
    case ok: False
    obtain nested url_pages where p: "parse_sitemap_xml env (decode_text env raw) = (nested, url_pages)"
      by (cases "parse_sitemap_xml env (decode_text env raw)")
    obtain pgs where c: "collect_pages cfg env domains (pages st) url_pages = Inr pgs"
      using collect_pages_total by blast
    have "st' = st\<lparr>seen_sitemaps := insert (last (to_process st)) (seen_sitemaps st),
                 processed_count := Suc (processed_count st),
                 requests := Suc (requests st),
                 fetched := fetched st @ [last (to_process st)],
                 to_process := butlast (to_process st)
                                 @ filter (\<lambda>u. u \<notin> insert (last (to_process st)) (seen_sitemaps st)) nested,
                 parsed := parsed st @ [last (to_process st)],
                 pages := pgs\<rparr>"
      using assms False f ok p c by (simp add: sitemap_step_def Let_def)
    then show ?thesis using False c parsed [of nested url_pages] by simp
  qed
qed

lemma sitemap_step_total: "\<exists>st'. sitemap_step cfg env net domains st = Inr st'"
proof (cases "sitemap_step cfg env net domains st")
  case (Inr st')
  then show ?thesis by blast
next
  case (Inl e)
  obtain status raw headers where f:
    "fetch_text_bytes env (net (requests st) (last (to_process st))) (last (to_process st))
       = (status, raw, headers)"
    by (metis prod_cases3)
  obtain nested url_pages where p: "parse_sitemap_xml env (decode_text env raw) = (nested, url_pages)"
    by (cases "parse_sitemap_xml env (decode_text env raw)")
  obtain pgs where c: "collect_pages cfg env domains (pages st) url_pages = Inr pgs"
    using collect_pages_total by blast
  show ?thesis
    using Inl f p c by (simp add: sitemap_step_def Let_def split: if_splits)
qed

text \<open>One pass keeps both invariants.\<close>

lemma sitemap_step_caps:
  assumes "loop_condition cfg st" "caps_inv cfg st"
    and "sitemap_step cfg env net domains st = Inr st'"
  shows "caps_inv cfg st'"
  using assms(3)
proof (cases rule: sitemap_step_cases)
  case seen
  then show ?thesis using assms(2) by (simp add: caps_inv_def)
next
  case skipped
  then show ?thesis using assms(1,2)
    by (simp add: caps_inv_def loop_condition_def)
next
  case (parsed nested url_pages)
  have "finite (pages st') \<and> int (card (pages st')) \<le> MAX_PAGES cfg \<and> pages st \<subseteq> pages st'"
    using collect_pages_bound [OF _ _ parsed(5)] assms(1,2)
    by (simp add: caps_inv_def loop_condition_def)
  then show ?thesis using assms(1,2) parsed(1,2,3,4,6,7,8)
    by (simp add: caps_inv_def loop_condition_def)
qed

lemma sitemap_step_visits:
  assumes "visits_inv st" and "sitemap_step cfg env net domains st = Inr st'"
  shows "visits_inv st'"
  using assms(2)
proof (cases rule: sitemap_step_cases)
  case seen
  then show ?thesis using assms(1) by (auto simp: visits_inv_def)
next
  case skipped
  then show ?thesis using assms(1) by (auto simp: visits_inv_def)
next
  case (parsed nested url_pages)
  then show ?thesis using assms(1) by (auto simp: visits_inv_def)
qed

text \<open>
  What every pass keeps and the first state has, every state of the run has. The
  loop returns, and what it returns is the state after some number of passes.
\<close>

lemma sitemap_passes_invariant:
  assumes "\<And>st st'. loop_condition cfg st \<Longrightarrow> P st \<Longrightarrow>
             sitemap_step cfg env net domains st = Inr st' \<Longrightarrow> P st'"
    and "P st0"
  shows "\<exists>st. sitemap_passes k cfg env net domains st0 = Inr st \<and> P st"
  using assms(2)
proof (induction k arbitrary: st0)
  case 0
  then show ?case by simp
next
  case (Suc k)
  show ?case
  proof (cases "loop_condition cfg st0")
    case False
    then show ?thesis using Suc.prems by simp
  next
    case True
    obtain st1 where s: "sitemap_step cfg env net domains st0 = Inr st1"
      using sitemap_step_total by blast
    have "P st1"
      using assms(1) [OF True Suc.prems s] .
    then have "\<exists>st. sitemap_passes k cfg env net domains st1 = Inr st \<and> P st"
      by (rule Suc.IH)
    then show ?thesis using True s by simp
  qed
qed

lemma sitemap_loop_passes:
  "sitemap_passes k cfg env net domains st0 = Inr st \<Longrightarrow>
     sitemap_loop cfg env net domains st0 = sitemap_loop cfg env net domains st"
proof (induction k arbitrary: st0)
  case 0
  then show ?case by simp
next
  case (Suc k)
  show ?case
  proof (cases "loop_condition cfg st0")
    case False
    then show ?thesis using Suc.prems by simp
  next
    case True
    obtain st1 where s: "sitemap_step cfg env net domains st0 = Inr st1"
      using sitemap_step_total by blast
    have "sitemap_passes k cfg env net domains st1 = Inr st"
      using Suc.prems True s by simp
    then have "sitemap_loop cfg env net domains st1 = sitemap_loop cfg env net domains st"
      by (rule Suc.IH)
    moreover have "sitemap_loop cfg env net domains st0 = sitemap_loop cfg env net domains st1"
      using True s by simp
    ultimately show ?thesis by simp
  qed
qed

lemma sitemap_loop_ends:
  "\<exists>k st. sitemap_passes k cfg env net domains st0 = Inr st \<and> \<not> loop_condition cfg st
          \<and> sitemap_loop cfg env net domains st0 = Inr st"
proof (induction cfg env net domains st0 rule: sitemap_loop.induct)
  case (1 cfg env net domains st)
  show ?case
  proof (cases "loop_condition cfg st")
    case False
    then have "sitemap_passes 0 cfg env net domains st = Inr st \<and> \<not> loop_condition cfg st
          \<and> sitemap_loop cfg env net domains st = Inr st"
      by simp
    then show ?thesis by blast
  next
    case True
    obtain st1 where s: "sitemap_step cfg env net domains st = Inr st1"
      using sitemap_step_total by blast
    obtain k st' where k: "sitemap_passes k cfg env net domains st1 = Inr st'"
      "\<not> loop_condition cfg st'" "sitemap_loop cfg env net domains st1 = Inr st'"
      using "1.IH" [OF True s] by blast
    have "sitemap_passes (Suc k) cfg env net domains st = Inr st' \<and> \<not> loop_condition cfg st'
          \<and> sitemap_loop cfg env net domains st = Inr st'"
      using True s k by simp
    then show ?thesis by blast
  qed
qed

lemma caps_inv_initial: "caps_inv cfg (initial_traversal candidates n)"
  by (simp add: caps_inv_def initial_traversal_def)

lemma visits_inv_initial: "visits_inv (initial_traversal candidates n)"
  by (simp add: visits_inv_def initial_traversal_def)

text \<open>
  The run on the second example, from the one candidate \<open>https://a.io/sitemap.xml\<close>,
  pass by pass.
\<close>

lemma example_lower:
  "str_lower ''https://a.io/sitemap.xml'' = ''https://a.io/sitemap.xml''"
  "str_lower ''https://a.io/news.xml'' = ''https://a.io/news.xml''"
  "str_lower ''https://a.io/News-Sitemap'' = ''https://a.io/news-sitemap''"
  "str_lower ''https://a.io/Feed.XML'' = ''https://a.io/feed.xml''"
  "str_lower ''https://a.io/p#top'' = ''https://a.io/p#top''"
  "str_lower ''https://a.io/pic.jpg'' = ''https://a.io/pic.jpg''"
  "str_lower ''https://b.io/x'' = ''https://b.io/x''"
  "str_lower ''a.io'' = ''a.io''"
  "str_lower ''b.io'' = ''b.io''"
  "str_lower ''/p'' = ''/p''"
  "str_lower ''/pic.jpg'' = ''/pic.jpg''"
  "str_lower ''/x'' = ''/x''"
  "str_lower ''sitemapindex'' = ''sitemapindex''"
  "str_lower ''urlset'' = ''urlset''"
  by code_simp+

lemma str_lower_Nil: "str_lower [] = []"
  by (simp add: str_lower_def)

lemma example_fetch:
  "fetch_text_bytes library1 (network1 n ''https://a.io/sitemap.xml'') ''https://a.io/sitemap.xml''
     = (200, ''<index>'', Map.empty)"
  "fetch_text_bytes library1 (network1 n ''https://a.io/news.xml'') ''https://a.io/news.xml''
     = (200, ''<urlset>'', Map.empty)"
  "fetch_text_bytes library1 (network1 n ''https://a.io/News-Sitemap'') ''https://a.io/News-Sitemap''
     = (0, [], Map.empty)"
  "fetch_text_bytes library1 (network1 n ''https://a.io/Feed.XML'') ''https://a.io/Feed.XML''
     = (0, [], Map.empty)"
  by (simp_all add: fetch_text_bytes_def network1_def example_lower endswith_def suffix_to_prefix
        Let_def str_lower_Nil)

lemma example_urlparse:
  "urlparse env ''https://a.io/p#top'' [] =
     Inr \<lparr>scheme = ''https'', netloc = ''a.io'', path = ''/p'', params = [], query = [],
          fragment = ''top''\<rparr>"
  "urlparse env ''https://a.io/pic.jpg'' [] =
     Inr \<lparr>scheme = ''https'', netloc = ''a.io'', path = ''/pic.jpg'', params = [], query = [],
          fragment = []\<rparr>"
  "urlparse env ''https://b.io/x'' [] =
     Inr \<lparr>scheme = ''https'', netloc = ''b.io'', path = ''/x'', params = [], query = [],
          fragment = []\<rparr>"
  by (simp_all add: url_eval)

lemma example_sitemap_like:
  "\<not> is_sitemap_like env ''https://a.io/p#top''"
  "\<not> is_sitemap_like env ''https://a.io/pic.jpg''"
  "\<not> is_sitemap_like env ''https://b.io/x''"
  "is_sitemap_like env ''https://a.io/News-Sitemap''"
  "is_sitemap_like env ''https://a.io/Feed.XML''"
  by (simp_all add: is_sitemap_like_def example_lower example_urlparse endswith_def
        suffix_to_prefix parse_qs_keys_def parse_qsl_def)

lemma example_parse:
  "parse_sitemap_xml library1 ''<index>''
     = ([''https://a.io/news.xml'', ''https://a.io/sitemap.xml'', ''https://a.io/news.xml''], [])"
  "parse_sitemap_xml library1 ''<urlset>''
     = ([''https://a.io/News-Sitemap'', ''https://a.io/Feed.XML''],
        [''https://a.io/p#top'', ''https://a.io/pic.jpg'', ''https://b.io/x''])"
  by (simp_all add: parse_sitemap_xml_def library1_def index_doc_def urlset_doc_def
        findall_any_def tag_is_def endswith_def suffix_to_prefix split1_def example_lower
        example_sitemap_like str_strip_def str_lstrip_def str_rstrip_def isspace_def)


lemma example_same_domain:
  "same_domain env ''https://a.io/p#top'' [''a.io'']"
  "same_domain env ''https://a.io/pic.jpg'' [''a.io'']"
  "\<not> same_domain env ''https://b.io/x'' [''a.io'']"
  by (simp_all add: same_domain_def example_urlparse example_lower endswith_def suffix_to_prefix)

lemma example_binary:
  "is_binary_url env ''https://a.io/p#top'' = Inr False"
  "is_binary_url env ''https://a.io/pic.jpg'' = Inr True"
  by (simp_all add: is_binary_url_def example_urlparse example_lower endswith_def
        suffix_to_prefix BINARY_EXTS_def)

lemma example_defrag:
  "urldefrag env ''https://a.io/p#top'' = Inr (''https://a.io/p'', ''top'')"
  by (simp add: urldefrag_def example_urlparse urlunparse_def urlunsplit_def uses_netloc_def)

lemma example_collect:
  "collect_pages default_config library1 [''a.io''] {}
     [''https://a.io/p#top'', ''https://a.io/pic.jpg'', ''https://b.io/x''] = Inr {''https://a.io/p''}"
  "collect_pages one_page_config library1 [''a.io''] {}
     [''https://a.io/p#top'', ''https://a.io/pic.jpg'', ''https://b.io/x''] = Inr {''https://a.io/p''}"
  by (simp_all add: example_same_domain example_binary example_defrag default_config_def
        one_page_config_def)

lemma example_doc_start:
  "startswith (str_strip ''<index>'') ''<''"
  "startswith (str_strip ''<urlset>'') ''<''"
  "decode_text library1 ''<index>'' = ''<index>''"
  "decode_text library1 ''<urlset>'' = ''<urlset>''"
  by (simp_all add: decode_text_def library1_def library0_def startswith_def str_strip_def
        str_lstrip_def str_rstrip_def isspace_def)

lemma example_step_index:
  "sitemap_step cfg library1 network1 [''a.io'']
       \<lparr>to_process = [''https://a.io/sitemap.xml''], seen_sitemaps = {}, processed_count = n,
          pages = pgs, requests = r, fetched = f, parsed = p\<rparr>
     = Inr \<lparr>to_process = [''https://a.io/news.xml'', ''https://a.io/news.xml''],
            seen_sitemaps = {''https://a.io/sitemap.xml''}, processed_count = Suc n,
            pages = pgs, requests = Suc r, fetched = f @ [''https://a.io/sitemap.xml''],
            parsed = p @ [''https://a.io/sitemap.xml'']\<rparr>"
  by (simp add: sitemap_step_def example_fetch example_doc_start example_parse Let_def)

lemma example_step_urlset:
  "cfg = default_config \<or> cfg = one_page_config \<Longrightarrow>
   sitemap_step cfg library1 network1 [''a.io'']
       \<lparr>to_process = [''https://a.io/news.xml'', ''https://a.io/news.xml''],
          seen_sitemaps = {''https://a.io/sitemap.xml''}, processed_count = n, pages = {},
          requests = r, fetched = f, parsed = p\<rparr>
     = Inr \<lparr>to_process = [''https://a.io/news.xml'', ''https://a.io/News-Sitemap'',
                           ''https://a.io/Feed.XML''],
            seen_sitemaps = {''https://a.io/news.xml'', ''https://a.io/sitemap.xml''},
            processed_count = Suc n, pages = {''https://a.io/p''},
            requests = Suc r, fetched = f @ [''https://a.io/news.xml''],
            parsed = p @ [''https://a.io/news.xml'']\<rparr>"
  by (auto simp add: sitemap_step_def example_fetch example_doc_start example_parse
        example_collect Let_def simp del: collect_pages.simps)

lemma example_step_feed:
  "sitemap_step cfg library1 network1 [''a.io'']
       \<lparr>to_process = [''https://a.io/news.xml'', ''https://a.io/News-Sitemap'',
                       ''https://a.io/Feed.XML''],
          seen_sitemaps = {''https://a.io/news.xml'', ''https://a.io/sitemap.xml''},
          processed_count = n, pages = pgs, requests = r, fetched = f, parsed = p\<rparr>
     = Inr \<lparr>to_process = [''https://a.io/news.xml'', ''https://a.io/News-Sitemap''],
            seen_sitemaps = {''https://a.io/Feed.XML'', ''https://a.io/news.xml'',
                             ''https://a.io/sitemap.xml''},
            processed_count = Suc n, pages = pgs, requests = Suc r,
            fetched = f @ [''https://a.io/Feed.XML''], parsed = p\<rparr>"
  by (simp add: sitemap_step_def example_fetch Let_def)

lemma example_step_news_sitemap:
  "sitemap_step cfg library1 network1 [''a.io'']
       \<lparr>to_process = [''https://a.io/news.xml'', ''https://a.io/News-Sitemap''],
          seen_sitemaps = {''https://a.io/Feed.XML'', ''https://a.io/news.xml'',
                           ''https://a.io/sitemap.xml''},
          processed_count = n, pages = pgs, requests = r, fetched = f, parsed = p\<rparr>
     = Inr \<lparr>to_process = [''https://a.io/news.xml''],
            seen_sitemaps = {''https://a.io/News-Sitemap'', ''https://a.io/Feed.XML'',
                             ''https://a.io/news.xml'', ''https://a.io/sitemap.xml''},
            processed_count = Suc n, pages = pgs, requests = Suc r,
            fetched = f @ [''https://a.io/News-Sitemap''], parsed = p\<rparr>"
  by (simp add: sitemap_step_def example_fetch Let_def)

lemma example_step_seen:
  "sitemap_step cfg library1 network1 [''a.io'']
       \<lparr>to_process = [''https://a.io/news.xml''],
          seen_sitemaps = {''https://a.io/News-Sitemap'', ''https://a.io/Feed.XML'',
                           ''https://a.io/news.xml'', ''https://a.io/sitemap.xml''},
          processed_count = n, pages = pgs, requests = r, fetched = f, parsed = p\<rparr>
     = Inr \<lparr>to_process = [],
            seen_sitemaps = {''https://a.io/News-Sitemap'', ''https://a.io/Feed.XML'',
                             ''https://a.io/news.xml'', ''https://a.io/sitemap.xml''},
            processed_count = n, pages = pgs, requests = r, fetched = f, parsed = p\<rparr>"
  by (simp add: sitemap_step_def Let_def)

lemma example_condition:
  "loop_condition default_config
       \<lparr>to_process = tp, seen_sitemaps = seen, processed_count = n, pages = pgs,
          requests = r, fetched = f, parsed = p\<rparr>
     \<longleftrightarrow> tp \<noteq> [] \<and> int (card pgs) < 20000 \<and> n < 5000"
  "loop_condition one_page_config
       \<lparr>to_process = tp, seen_sitemaps = seen, processed_count = n, pages = pgs,
          requests = r, fetched = f, parsed = p\<rparr>
     \<longleftrightarrow> tp \<noteq> [] \<and> int (card pgs) < 1 \<and> n < 5000"
  by (simp_all add: loop_condition_def default_config_def one_page_config_def SITEMAP_CAP_def)

lemma example_passes_one_page:
  "sitemap_passes 2 one_page_config library1 network1 [''a.io'']
       (initial_traversal [''https://a.io/sitemap.xml''] 0)
     = Inr \<lparr>to_process = [''https://a.io/news.xml'', ''https://a.io/News-Sitemap'',
                           ''https://a.io/Feed.XML''],
            seen_sitemaps = {''https://a.io/news.xml'', ''https://a.io/sitemap.xml''},
            processed_count = 2, pages = {''https://a.io/p''},
            requests = 2, fetched = [''https://a.io/sitemap.xml'', ''https://a.io/news.xml''],
            parsed = [''https://a.io/sitemap.xml'', ''https://a.io/news.xml'']\<rparr>"
  unfolding numeral_2_eq_2 sitemap_passes.simps initial_traversal_def
  by (simp add: example_condition example_step_index example_step_urlset)

lemma example_loop:
  "sitemap_loop default_config library1 network1 [''a.io'']
       (initial_traversal [''https://a.io/sitemap.xml''] 0)
     = Inr \<lparr>to_process = [],
            seen_sitemaps = {''https://a.io/News-Sitemap'', ''https://a.io/Feed.XML'',
                             ''https://a.io/news.xml'', ''https://a.io/sitemap.xml''},
            processed_count = 4, pages = {''https://a.io/p''},
            requests = 4,
            fetched = [''https://a.io/sitemap.xml'', ''https://a.io/news.xml'',
                       ''https://a.io/Feed.XML'', ''https://a.io/News-Sitemap''],
            parsed = [''https://a.io/sitemap.xml'', ''https://a.io/news.xml'']\<rparr>"
  unfolding initial_traversal_def
  apply (subst sitemap_loop.simps)
  apply (simp add: example_condition example_step_index del: sitemap_loop.simps)
  apply (subst sitemap_loop.simps)
  apply (simp add: example_condition example_step_urlset del: sitemap_loop.simps)
  apply (subst sitemap_loop.simps)
  apply (simp add: example_condition example_step_feed del: sitemap_loop.simps)
  apply (subst sitemap_loop.simps)
  apply (simp add: example_condition example_step_news_sitemap del: sitemap_loop.simps)
  apply (subst sitemap_loop.simps)
  apply (simp add: example_condition example_step_seen del: sitemap_loop.simps)
  apply (subst sitemap_loop.simps)
  apply (simp add: example_condition del: sitemap_loop.simps)
  done

lemma sitemap_passes_stop:
  "sitemap_passes k cfg env net domains st0 = Inr st \<Longrightarrow> \<not> loop_condition cfg st \<Longrightarrow>
     sitemap_passes (Suc k) cfg env net domains st0 = Inr st"
proof (induction k arbitrary: st0)
  case 0
  then show ?case by simp
next
  case (Suc k)
  show ?case
  proof (cases "loop_condition cfg st0")
    case False
    then show ?thesis using Suc.prems by simp
  next
    case True
    obtain st1 where s: "sitemap_step cfg env net domains st0 = Inr st1"
      using sitemap_step_total by blast
    have "sitemap_passes k cfg env net domains st1 = Inr st"
      using Suc.prems(1) True s by simp
    then have "sitemap_passes (Suc k) cfg env net domains st1 = Inr st"
      using Suc.prems(2) by (rule Suc.IH)
    then show ?thesis
      using True s by simp
  qed
qed

lemma caps_inv_passes:
  "\<exists>st. sitemap_passes k cfg env net domains (initial_traversal candidates n) = Inr st
        \<and> caps_inv cfg st"
  by (rule sitemap_passes_invariant [where P = "caps_inv cfg"])
     (auto intro: sitemap_step_caps caps_inv_initial)

lemma visits_inv_passes:
  "\<exists>st. sitemap_passes k cfg env net domains (initial_traversal candidates n) = Inr st
        \<and> visits_inv st"
  by (rule sitemap_passes_invariant [where P = visits_inv])
     (auto intro: sitemap_step_visits visits_inv_initial)

text \<open>
  \<open>gather_pages_from_sitemaps\<close> is the loop, started from the candidates that discovery
  returned, in the order that \<open>list(candidate_sitemaps)\<close> gives them.
\<close>

lemma gather_pages_from_sitemaps_loop:
  "discover_all env net 0 {} domains = Inr (candidate_sitemaps, n) \<Longrightarrow>
     gather_pages_from_sitemaps cfg env net domains
       = sitemap_loop cfg env net domains
           (initial_traversal (list_of_set env candidate_sitemaps) n)"
  by (simp add: gather_pages_from_sitemaps_def)

text \<open>
  Claim C4. For every list of candidates, every network and every behaviour of the
  libraries, so for every sequence of documents fetched: the state of the traversal
  after any number \<open>k\<close> of passes exists (no pass raises), and in it at most
  \<open>SITEMAP_CAP\<close> URLs were fetched, which \<open>processed_count\<close> counts, and so at most
  \<open>SITEMAP_CAP\<close> documents parsed, and the set of pages is finite with at most
  \<open>MAX_PAGES\<close> members (none, should \<open>MAX_PAGES\<close> be negative). When that state has
  reached one of the two caps, there is no further pass: the state after \<open>k + 1\<close>
  passes is the same, and it is what the traversal returns. The traversal does
  return, and the same bounds hold of what it returns.
\<close>

theorem sitemap_traversal_caps:
  "(\<exists>st. sitemap_passes k cfg env net domains (initial_traversal candidates n) = Inr st
        \<and> length (parsed st) \<le> SITEMAP_CAP
        \<and> length (fetched st) \<le> SITEMAP_CAP
        \<and> processed_count st = length (fetched st)
        \<and> finite (pages st)
        \<and> int (card (pages st)) \<le> max 0 (MAX_PAGES cfg)
        \<and> (MAX_PAGES cfg \<le> int (card (pages st)) \<or> SITEMAP_CAP \<le> processed_count st
             \<longrightarrow> sitemap_passes (Suc k) cfg env net domains (initial_traversal candidates n) = Inr st
                 \<and> sitemap_loop cfg env net domains (initial_traversal candidates n) = Inr st))
   \<and> (\<exists>st. sitemap_loop cfg env net domains (initial_traversal candidates n) = Inr st
        \<and> length (parsed st) \<le> SITEMAP_CAP
        \<and> length (fetched st) \<le> SITEMAP_CAP
        \<and> processed_count st = length (fetched st)
        \<and> finite (pages st)
        \<and> int (card (pages st)) \<le> max 0 (MAX_PAGES cfg))"
proof (rule conjI)
  obtain st where p: "sitemap_passes k cfg env net domains (initial_traversal candidates n) = Inr st"
    and c: "caps_inv cfg st"
    using caps_inv_passes by blast
  have stop: "sitemap_passes (Suc k) cfg env net domains (initial_traversal candidates n) = Inr st
                \<and> sitemap_loop cfg env net domains (initial_traversal candidates n) = Inr st"
    if "MAX_PAGES cfg \<le> int (card (pages st)) \<or> SITEMAP_CAP \<le> processed_count st"
  proof -
    have n: "\<not> loop_condition cfg st"
      using that by (auto simp: loop_condition_def)
    then have "sitemap_loop cfg env net domains st = Inr st"
      by simp
    then have "sitemap_loop cfg env net domains (initial_traversal candidates n) = Inr st"
      using sitemap_loop_passes [OF p] by simp
    then show ?thesis
      using sitemap_passes_stop [OF p n] by simp
  qed
  have "length (parsed st) \<le> SITEMAP_CAP \<and> length (fetched st) \<le> SITEMAP_CAP
        \<and> processed_count st = length (fetched st) \<and> finite (pages st)
        \<and> int (card (pages st)) \<le> max 0 (MAX_PAGES cfg)"
    using c by (simp add: caps_inv_def)
  then show "\<exists>st. sitemap_passes k cfg env net domains (initial_traversal candidates n) = Inr st
        \<and> length (parsed st) \<le> SITEMAP_CAP
        \<and> length (fetched st) \<le> SITEMAP_CAP
        \<and> processed_count st = length (fetched st)
        \<and> finite (pages st)
        \<and> int (card (pages st)) \<le> max 0 (MAX_PAGES cfg)
        \<and> (MAX_PAGES cfg \<le> int (card (pages st)) \<or> SITEMAP_CAP \<le> processed_count st
             \<longrightarrow> sitemap_passes (Suc k) cfg env net domains (initial_traversal candidates n) = Inr st
                 \<and> sitemap_loop cfg env net domains (initial_traversal candidates n) = Inr st)"
    using p stop by blast
next
  obtain j st where e: "sitemap_passes j cfg env net domains (initial_traversal candidates n) = Inr st"
    "sitemap_loop cfg env net domains (initial_traversal candidates n) = Inr st"
    using sitemap_loop_ends by blast
  obtain st' where "sitemap_passes j cfg env net domains (initial_traversal candidates n) = Inr st'"
    and c: "caps_inv cfg st'"
    using caps_inv_passes by blast
  then have "caps_inv cfg st"
    using e(1) by simp
  then have "length (parsed st) \<le> SITEMAP_CAP \<and> length (fetched st) \<le> SITEMAP_CAP
        \<and> processed_count st = length (fetched st) \<and> finite (pages st)
        \<and> int (card (pages st)) \<le> max 0 (MAX_PAGES cfg)"
    by (simp add: caps_inv_def)
  then show "\<exists>st. sitemap_loop cfg env net domains (initial_traversal candidates n) = Inr st
        \<and> length (parsed st) \<le> SITEMAP_CAP
        \<and> length (fetched st) \<le> SITEMAP_CAP
        \<and> processed_count st = length (fetched st)
        \<and> finite (pages st)
        \<and> int (card (pages st)) \<le> max 0 (MAX_PAGES cfg)"
    using e(2) by blast
qed

theorem sitemap_traversal_caps_witness:
  "sitemap_passes 2 one_page_config library1 network1 [''a.io'']
       (initial_traversal [''https://a.io/sitemap.xml''] 0)
     = Inr \<lparr>to_process = [''https://a.io/news.xml'', ''https://a.io/News-Sitemap'',
                           ''https://a.io/Feed.XML''],
            seen_sitemaps = {''https://a.io/news.xml'', ''https://a.io/sitemap.xml''},
            processed_count = 2, pages = {''https://a.io/p''},
            requests = 2, fetched = [''https://a.io/sitemap.xml'', ''https://a.io/news.xml''],
            parsed = [''https://a.io/sitemap.xml'', ''https://a.io/news.xml'']\<rparr>
   \<and> MAX_PAGES one_page_config \<le> int (card {''https://a.io/p''})
   \<and> sitemap_loop one_page_config library1 network1 [''a.io'']
         (initial_traversal [''https://a.io/sitemap.xml''] 0)
     = Inr \<lparr>to_process = [''https://a.io/news.xml'', ''https://a.io/News-Sitemap'',
                           ''https://a.io/Feed.XML''],
            seen_sitemaps = {''https://a.io/news.xml'', ''https://a.io/sitemap.xml''},
            processed_count = 2, pages = {''https://a.io/p''},
            requests = 2, fetched = [''https://a.io/sitemap.xml'', ''https://a.io/news.xml''],
            parsed = [''https://a.io/sitemap.xml'', ''https://a.io/news.xml'']\<rparr>"
proof -
  have m: "MAX_PAGES one_page_config \<le> int (card {''https://a.io/p''})"
    by (simp add: one_page_config_def)
  obtain st where p: "sitemap_passes 2 one_page_config library1 network1 [''a.io'']
                        (initial_traversal [''https://a.io/sitemap.xml''] 0) = Inr st"
    and s: "MAX_PAGES one_page_config \<le> int (card (pages st)) \<or> SITEMAP_CAP \<le> processed_count st
             \<longrightarrow> sitemap_loop one_page_config library1 network1 [''a.io'']
                   (initial_traversal [''https://a.io/sitemap.xml''] 0) = Inr st"
    using sitemap_traversal_caps [of 2 one_page_config library1 network1 "[''a.io'']"
            "[''https://a.io/sitemap.xml'']" 0]
    by blast
  have e: "st = \<lparr>to_process = [''https://a.io/news.xml'', ''https://a.io/News-Sitemap'',
                           ''https://a.io/Feed.XML''],
            seen_sitemaps = {''https://a.io/news.xml'', ''https://a.io/sitemap.xml''},
            processed_count = 2, pages = {''https://a.io/p''},
            requests = 2, fetched = [''https://a.io/sitemap.xml'', ''https://a.io/news.xml''],
            parsed = [''https://a.io/sitemap.xml'', ''https://a.io/news.xml'']\<rparr>"
    using p unfolding example_passes_one_page by simp
  have "MAX_PAGES one_page_config \<le> int (card (pages st))"
    unfolding e using m by simp
  then have "sitemap_loop one_page_config library1 network1 [''a.io'']
                   (initial_traversal [''https://a.io/sitemap.xml''] 0) = Inr st"
    using s by blast
  then show ?thesis
    using p m unfolding e by blast
qed

text \<open>
  Claim C5. For every list of candidates, in which an URL may occur many times, every
  network and every behaviour of the libraries, so however the documents name one
  another: in the state after any number of passes, and in the state that the
  traversal returns, no URL occurs twice among the URLs fetched, nor among the URLs
  whose document was parsed; a document parsed is one fetched, and the URLs fetched are
  those in \<open>seen_sitemaps\<close>. In the example the index names itself and names
  \<open>/news.xml\<close> twice, which comes onto the worklist twice and is fetched once.
\<close>

theorem sitemap_visited_once:
  "(\<exists>st. sitemap_passes k cfg env net domains (initial_traversal candidates n) = Inr st
        \<and> distinct (fetched st) \<and> distinct (parsed st)
        \<and> set (parsed st) \<subseteq> set (fetched st)
        \<and> set (fetched st) = seen_sitemaps st)
   \<and> (\<exists>st. sitemap_loop cfg env net domains (initial_traversal candidates n) = Inr st
        \<and> distinct (fetched st) \<and> distinct (parsed st)
        \<and> set (parsed st) \<subseteq> set (fetched st)
        \<and> set (fetched st) = seen_sitemaps st)"
proof (rule conjI)
  show "\<exists>st. sitemap_passes k cfg env net domains (initial_traversal candidates n) = Inr st
        \<and> distinct (fetched st) \<and> distinct (parsed st)
        \<and> set (parsed st) \<subseteq> set (fetched st)
        \<and> set (fetched st) = seen_sitemaps st"
    using visits_inv_passes [of k cfg env net domains candidates n]
    unfolding visits_inv_def by blast
next
  obtain j st where e: "sitemap_passes j cfg env net domains (initial_traversal candidates n) = Inr st"
    "sitemap_loop cfg env net domains (initial_traversal candidates n) = Inr st"
    using sitemap_loop_ends by blast
  obtain st' where "sitemap_passes j cfg env net domains (initial_traversal candidates n) = Inr st'"
    and c: "visits_inv st'"
    using visits_inv_passes by blast
  then have "visits_inv st"
    using e(1) by simp
  then show "\<exists>st. sitemap_loop cfg env net domains (initial_traversal candidates n) = Inr st
        \<and> distinct (fetched st) \<and> distinct (parsed st)
        \<and> set (parsed st) \<subseteq> set (fetched st)
        \<and> set (fetched st) = seen_sitemaps st"
    using e(2) unfolding visits_inv_def by blast
qed

theorem sitemap_visited_once_witness:
  "sitemap_loop default_config library1 network1 [''a.io'']
       (initial_traversal [''https://a.io/sitemap.xml''] 0)
     = Inr \<lparr>to_process = [],
            seen_sitemaps = {''https://a.io/News-Sitemap'', ''https://a.io/Feed.XML'',
                             ''https://a.io/news.xml'', ''https://a.io/sitemap.xml''},
            processed_count = 4, pages = {''https://a.io/p''},
            requests = 4,
            fetched = [''https://a.io/sitemap.xml'', ''https://a.io/news.xml'',
                       ''https://a.io/Feed.XML'', ''https://a.io/News-Sitemap''],
            parsed = [''https://a.io/sitemap.xml'', ''https://a.io/news.xml'']\<rparr>
   \<and> distinct [''https://a.io/sitemap.xml'', ''https://a.io/news.xml'',
                 ''https://a.io/Feed.XML'', ''https://a.io/News-Sitemap'']
   \<and> distinct [''https://a.io/sitemap.xml'', ''https://a.io/news.xml'']"
proof -
  obtain st where l: "sitemap_loop default_config library1 network1 [''a.io'']
                        (initial_traversal [''https://a.io/sitemap.xml''] 0) = Inr st"
    and d: "distinct (fetched st)" "distinct (parsed st)"
    using sitemap_visited_once [of 0 default_config library1 network1 "[''a.io'']"
            "[''https://a.io/sitemap.xml'']" 0]
    by blast
  have e: "st = \<lparr>to_process = [],
            seen_sitemaps = {''https://a.io/News-Sitemap'', ''https://a.io/Feed.XML'',
                             ''https://a.io/news.xml'', ''https://a.io/sitemap.xml''},
            processed_count = 4, pages = {''https://a.io/p''},
            requests = 4,
            fetched = [''https://a.io/sitemap.xml'', ''https://a.io/news.xml'',
                       ''https://a.io/Feed.XML'', ''https://a.io/News-Sitemap''],
            parsed = [''https://a.io/sitemap.xml'', ''https://a.io/news.xml'']\<rparr>"
    using l unfolding example_loop by simp
  have "distinct [''https://a.io/sitemap.xml'', ''https://a.io/news.xml'',
                 ''https://a.io/Feed.XML'', ''https://a.io/News-Sitemap'']"
    using d(1) unfolding e by simp
  moreover have "distinct [''https://a.io/sitemap.xml'', ''https://a.io/news.xml'']"
    using d(2) unfolding e by simp
  ultimately show ?thesis
    using example_loop by blast
qed

section \<open>Properties of the robots rules\<close>

lemma example_page_url:
  "urlparse env ''https://example.com/page'' [] =
     Inr \<lparr>scheme = ''https'', netloc = ''example.com'', path = ''/page'', params = [], query = [],
          fragment = []\<rparr>"
  "urlparse env ''https://example.com/robots.txt'' [] =
     Inr \<lparr>scheme = ''https'', netloc = ''example.com'', path = ''/robots.txt'', params = [],
          query = [], fragment = []\<rparr>"
  by (simp_all add: url_eval)

lemma example_page_lower:
  "str_lower ''example.com'' = ''example.com''"
  "str_lower ''/page'' = ''/page''"
  by code_simp+

lemma example_page_scope:
  "same_domain env ''https://example.com/page'' [''example.com'']"
  "is_binary_url env ''https://example.com/page'' = Inr False"
  by (simp_all add: same_domain_def is_binary_url_def example_page_url example_page_lower
        endswith_def suffix_to_prefix BINARY_EXTS_def)

lemma read_unreachable:
  "read env urlopen_unreachable rp = (Some URLError, rp)"
  by (simp add: read_def urlopen_unreachable_def)

lemma init_unreachable:
  "init env urlopen_unreachable (SiteScanner_init env have_aho [''example.com''] ps)
     = Inr ((SiteScanner_init env have_aho [''example.com''] ps)
             \<lparr>self_rp_by_domain :=
                [''example.com'' \<mapsto>
                   \<lparr>rp_url = ''https://example.com/robots.txt'', disallow_all = False,
                    allow_all = False, last_checked = False, rp_lines = []\<rparr>]\<rparr>)"
  by (simp add: init_def SiteScanner_init_def possible_base_urls_def SCHEMES_def urljoin_example
        set_url_def example_page_url read_unreachable RobotFileParser_init_def)

text \<open>
  Whatever the rules would say: a parser that has read nothing answers \<open>False\<close>, and
  \<open>allowed\<close> passes the answer on.
\<close>

lemma can_fetch_unread:
  "\<not> disallow_all rp \<Longrightarrow> \<not> allow_all rp \<Longrightarrow> \<not> last_checked rp \<Longrightarrow>
     can_fetch env rp useragent url = Inr False"
  by (simp add: can_fetch_def)

lemma allowed_unread:
  assumes "same_domain env url (self_domains sc)"
    and "is_binary_url env url = Inr False"
    and "urlparse env url [] = Inr p"
    and "find (\<lambda>d. str_lower (netloc p) = d \<or> endswith (str_lower (netloc p)) (''.'' @ d))
           (self_domains sc) = Some d"
    and "d \<noteq> []"
    and "self_rp_by_domain sc d = Some rp"
    and "\<not> disallow_all rp" "\<not> allow_all rp" "\<not> last_checked rp"
  shows "allowed env sc url = Inr False"
  using assms by (simp add: allowed_def can_fetch_def)

text \<open>
  Claim C1 does not hold of the code. The host \<open>example.com\<close> cannot be reached:
  \<open>read\<close> raises, \<open>suppress(Exception)\<close> in \<open>init\<close> swallows the exception, and the
  parser is stored as it was made, with \<open>last_checked\<close> unset. The URL
  \<open>https://example.com/page\<close> is in the scope of the domain and is not binary, and
  \<open>allowed\<close> returns \<open>False\<close> for it, for every behaviour of the libraries: the
  fallback is "allow nothing", where the claim, and every other path of \<open>allowed\<close>
  that meets a failure, say "allow".
\<close>

theorem allowed_after_failed_robots_load:
  "read env urlopen_unreachable
       \<lparr>rp_url = ''https://example.com/robots.txt'', disallow_all = False, allow_all = False,
        last_checked = False, rp_lines = []\<rparr>
     = (Some URLError,
        \<lparr>rp_url = ''https://example.com/robots.txt'', disallow_all = False, allow_all = False,
         last_checked = False, rp_lines = []\<rparr>)
   \<and> init env urlopen_unreachable (SiteScanner_init env have_aho [''example.com''] ps)
     = Inr ((SiteScanner_init env have_aho [''example.com''] ps)
             \<lparr>self_rp_by_domain :=
                [''example.com'' \<mapsto>
                   \<lparr>rp_url = ''https://example.com/robots.txt'', disallow_all = False,
                    allow_all = False, last_checked = False, rp_lines = []\<rparr>]\<rparr>)
   \<and> same_domain env ''https://example.com/page'' [''example.com'']
   \<and> is_binary_url env ''https://example.com/page'' = Inr False
   \<and> allowed env
         ((SiteScanner_init env have_aho [''example.com''] ps)
             \<lparr>self_rp_by_domain :=
                [''example.com'' \<mapsto>
                   \<lparr>rp_url = ''https://example.com/robots.txt'', disallow_all = False,
                    allow_all = False, last_checked = False, rp_lines = []\<rparr>]\<rparr>)
         ''https://example.com/page''
     = Inr False"
proof -
  have "allowed env
         ((SiteScanner_init env have_aho [''example.com''] ps)
             \<lparr>self_rp_by_domain :=
                [''example.com'' \<mapsto>
                   \<lparr>rp_url = ''https://example.com/robots.txt'', disallow_all = False,
                    allow_all = False, last_checked = False, rp_lines = []\<rparr>]\<rparr>)
         ''https://example.com/page''
     = Inr False"
    by (simp add: allowed_def SiteScanner_init_def example_page_scope example_page_url
          example_page_lower can_fetch_def)
  then show ?thesis
    using read_unreachable init_unreachable example_page_scope by blast
qed

section \<open>Properties of the match table\<close>

text \<open>
  Recording a match keeps the table within the cap, and so does the scan of a page,
  whether it returns or raises.
\<close>

lemma record_match_within_cap:
  assumes "within_cap matches" "record_match url pat matches = Inr matches'"
  shows "within_cap matches'"
proof (cases "matches pat")
  case None
  then show ?thesis using assms(2) by (simp add: record_match_def)
next
  case (Some pgs)
  then have f: "finite pgs" "card pgs \<le> MAX_MATCH_PAGES_PER_QUERY"
    using assms(1) by (auto simp: within_cap_def)
  show ?thesis
  proof (cases "card pgs < MAX_MATCH_PAGES_PER_QUERY")
    case False
    then show ?thesis using assms Some by (simp add: record_match_def)
  next
    case True
    then have m: "matches' = matches(pat \<mapsto> insert url pgs)"
      using assms(2) Some by (simp add: record_match_def)
    have "finite (insert url pgs) \<and> card (insert url pgs) \<le> MAX_MATCH_PAGES_PER_QUERY"
      using f True by (simp add: card_insert_if)
    then show ?thesis
      using assms(1) unfolding m within_cap_def by auto
  qed
qed

lemma record_matches_within_cap:
  "within_cap matches \<Longrightarrow> within_cap (snd (record_matches url pats matches))"
proof (induction pats arbitrary: matches)
  case Nil
  then show ?case by simp
next
  case (Cons pat pats)
  show ?case
  proof (cases "record_match url pat matches")
    case (Inl e)
    then show ?thesis using Cons.prems by simp
  next
    case (Inr matches')
    then have "within_cap matches'"
      using Cons.prems record_match_within_cap by blast
    then have "within_cap (snd (record_matches url pats matches'))"
      by (rule Cons.IH)
    then show ?thesis using Inr by simp
  qed
qed

lemma record_matches_result_within_cap:
  "within_cap matches \<Longrightarrow> record_matches url pats matches = (raised, matches') \<Longrightarrow>
     within_cap matches'"
  using record_matches_within_cap by (metis snd_conv)

lemma scan_page_within_cap:
  assumes "within_cap (self_matches sc)"
  shows "within_cap (self_matches (snd (scan_page cfg env reply sc url)))"
  using assms
  by (auto simp: scan_page_def Let_def split: sum.splits prod.splits
           intro: record_matches_result_within_cap)

lemma scan_pages_within_cap:
  "within_cap (self_matches sc) \<Longrightarrow> within_cap (self_matches (scan_pages cfg env net n sc urls))"
proof (induction urls arbitrary: n sc)
  case Nil
  then show ?case by simp
next
  case (Cons url urls)
  have "within_cap (self_matches (snd (scan_page cfg env (net n url) sc url)))"
    using Cons.prems by (rule scan_page_within_cap)
  then show ?case
    using Cons.IH by simp
qed

lemma SiteScanner_init_within_cap:
  "within_cap (self_matches ((SiteScanner_init env have_aho ds ps)\<lparr>self_rp_by_domain := rps\<rparr>))"
  by (simp add: within_cap_def SiteScanner_init_def)

lemma init_matches:
  "init env opener sc = Inr sc' \<Longrightarrow> self_matches sc' = self_matches sc"
  by (auto simp: init_def split: sum.splits)

lemma card_hundred_pages: "finite hundred_pages \<and> card hundred_pages = 100"
proof -
  have "inj_on (\<lambda>i. ''https://example.com/p'' @ replicate i (CHR ''x'')) {..<100::nat}"
    by (rule inj_onI) (metis length_replicate same_append_eq)
  then show ?thesis
    unfolding hundred_pages_def by (simp add: card_image)
qed

text \<open>
  Claim C9. The match table of a scanner starts with an empty set for each pattern,
  and \<open>init\<close> does not touch it. After the scan of any pages in any order, on any
  network, every set of the table is finite and holds at most
  \<open>MAX_MATCH_PAGES_PER_QUERY\<close> pages; the same is true at every point inside a scan,
  that is after the matches of any patterns were recorded in a table that was within
  the cap. When the set of a pattern has reached the cap, recording one more match for
  the pattern returns without an exception and leaves the table as it is.
\<close>

theorem matches_within_cap:
  "within_cap (self_matches
       (scan_pages cfg env net n
          ((SiteScanner_init env have_aho ds ps)\<lparr>self_rp_by_domain := rps\<rparr>) urls))
   \<and> (within_cap matches \<longrightarrow> within_cap (snd (record_matches url pats matches)))
   \<and> (matches pat = Some pgs \<and> MAX_MATCH_PAGES_PER_QUERY \<le> card pgs
         \<longrightarrow> record_match url pat matches = Inr matches)"
proof (intro conjI impI)
  show "within_cap (self_matches
       (scan_pages cfg env net n
          ((SiteScanner_init env have_aho ds ps)\<lparr>self_rp_by_domain := rps\<rparr>) urls))"
    using SiteScanner_init_within_cap by (rule scan_pages_within_cap)
next
  assume "within_cap matches"
  then show "within_cap (snd (record_matches url pats matches))"
    by (rule record_matches_within_cap)
next
  assume "matches pat = Some pgs \<and> MAX_MATCH_PAGES_PER_QUERY \<le> card pgs"
  then show "record_match url pat matches = Inr matches"
    by (simp add: record_match_def)
qed

end
